(* ===== verification/Yonaa_Prelude.thy ===== *)
theory Yonaa_Prelude
  imports Main "HOL-Library.Word"
begin

text \<open>
  Shared vocabulary of the development: the ways a C++ operation can end other than by
  returning (\<open>fault\<close>), the result and run types every operation is written in, the
  error codes of \<open>std::error_code\<close>, the C integer conversions the sources rely on, the
  decimal printing of \<open>std::to_string\<close>, and the generic lemmas the components share.

  A value \<open>Inr x\<close> is a normal return of \<open>x\<close>, \<open>Inl f\<close> an end by the fault \<open>f\<close>.
  An operation with a loop that may run forever has type \<open>'a run\<close>: there \<open>None\<close>
  means that it does not return.
\<close>

section \<open>Bytes, error codes, results\<close>

type_synonym bytes = "char list"
type_synonym error_code = int
type_synonym mask = "32 word"
type_synonym socket_type = int

abbreviation NUL :: char where
  "NUL \<equiv> CHR 0x00"

text \<open>
  \<open>std::error_code\<close> of category \<open>system_category\<close>, the only category the sources use:
  its value is an integer, a default-constructed code has value 0, and the conversion to
  bool asks whether the value differs from 0.
\<close>

definition no_error :: error_code where
  "no_error = 0"

definition ec_bool :: "error_code \<Rightarrow> bool" where
  "ec_bool ec \<longleftrightarrow> ec \<noteq> 0"

datatype fault =
    Out_of_bounds
  | Null_deref
  | Bad_function_call
  | Terminate
  | Exit_failure

type_synonym 'a result = "fault + 'a"
type_synonym 'a run = "(fault + 'a) option"

definition rbind :: "'a result \<Rightarrow> ('a \<Rightarrow> 'b result) \<Rightarrow> 'b result" where
  "rbind m k = (case m of Inl f \<Rightarrow> Inl f | Inr x \<Rightarrow> k x)"

definition dbind :: "'a run \<Rightarrow> ('a \<Rightarrow> 'b run) \<Rightarrow> 'b run" where
  "dbind m k = Option.bind m (\<lambda>r. case r of Inl f \<Rightarrow> Some (Inl f) | Inr x \<Rightarrow> k x)"

text \<open>
  The pattern of every overload that throws: run the overload that reports through an error
  code, starting from a clear code, and throw the code if it is set. The outcome of such an
  overload is \<open>Inl ec\<close> for a thrown code and \<open>Inr v\<close> for a value, beside the state the
  operation leaves, which an exception does not undo.
\<close>

definition throw_if_set :: "'v \<times> error_code \<times> 's \<Rightarrow> (error_code + 'v) \<times> 's" where
  "throw_if_set = (\<lambda>(v, ec, s). (if ec_bool ec then Inl ec else Inr v, s))"

text \<open>
  A \<open>std::thread\<close> member: default constructed, attached to a thread that has not ended, or
  attached to one that has ended. It is joinable until it is joined, ended or not.
\<close>

datatype thread_state = No_thread | Thread_running | Thread_finished

definition joinable :: "thread_state \<Rightarrow> bool" where
  "joinable th \<longleftrightarrow> th \<noteq> No_thread"

section \<open>Integer conversions\<close>

text \<open>
  \<open>ssize_t\<close> to \<open>int\<close> keeps the low 32 bits in two's complement; adding an \<open>int\<close> to a
  \<open>size_t\<close> wraps at 64 bits; a \<open>size_t\<close> stored in a \<open>socklen_t\<close> keeps 32 bits.
\<close>

definition int_of_ssize :: "int \<Rightarrow> int" where
  "int_of_ssize r = (r + 2 ^ 31) mod 2 ^ 32 - 2 ^ 31"

definition size_of_int :: "int \<Rightarrow> nat" where
  "size_of_int r = nat (r mod 2 ^ 64)"

definition size_add :: "nat \<Rightarrow> int \<Rightarrow> nat" where
  "size_add n r = nat ((int n + r) mod 2 ^ 64)"

section \<open>Decimal printing\<close>

definition digit_char :: "nat \<Rightarrow> char" where
  "digit_char d = ''0123456789'' ! d"

fun to_string :: "nat \<Rightarrow> string" where
  "to_string n = (if n < 10 then [digit_char n] else to_string (n div 10) @ [digit_char (n mod 10)])"

declare to_string.simps [simp del]

definition parse_dec :: "string \<Rightarrow> nat" where
  "parse_dec s = foldl (\<lambda>a c. a * 10 + (of_char c - 48)) 0 s"

text \<open>The bytes a C function sees of a \<open>std::string\<close> passed with \<open>c_str()\<close>.\<close>

definition c_str :: "string \<Rightarrow> string" where
  "c_str s = takeWhile (\<lambda>c. c \<noteq> NUL) s"

section \<open>Searching and writing lists\<close>

text \<open>\<open>std::find_if\<close> over a vector of pointers: the predicate reads through the pointer, so a
  null entry met before the first match is a null dereference. A match is returned as the
  position of the pointer and the object it points to.\<close>

fun find_ptr :: "('a \<Rightarrow> bool) \<Rightarrow> 'a option list \<Rightarrow> (nat \<times> 'a) option result" where
  "find_ptr P [] = Inr None"
| "find_ptr P (None # ps) = Inl Null_deref"
| "find_ptr P (Some x # ps) =
     (if P x then Inr (Some (0, x))
      else rbind (find_ptr P ps) (\<lambda>r. Inr (map_option (\<lambda>(i, y). (Suc i, y)) r)))"

text \<open>Writing \<open>bs\<close> to the front of a memory block; what does not fit is not written.\<close>

definition overwrite :: "bytes \<Rightarrow> bytes \<Rightarrow> bytes" where
  "overwrite mem bs = take (length mem) bs @ drop (length bs) mem"

section \<open>Lemma collections\<close>

named_theorems bind_simps \<open>computation and inversion rules of the two binds\<close>

section \<open>Generic lemmas\<close>

lemma rbind_Inl [simp, bind_simps]: "rbind (Inl f) k = Inl f"
  by (simp add: rbind_def)

lemma rbind_Inr [simp, bind_simps]: "rbind (Inr x) k = k x"
  by (simp add: rbind_def)

lemma rbind_eq_Inr [bind_simps]: "rbind m k = Inr y \<longleftrightarrow> (\<exists>x. m = Inr x \<and> k x = Inr y)"
  by (cases m) auto

lemma rbind_eq_Inl [bind_simps]:
  "rbind m k = Inl f \<longleftrightarrow> m = Inl f \<or> (\<exists>x. m = Inr x \<and> k x = Inl f)"
  by (cases m) auto

lemma rbind_assoc: "rbind (rbind m k) l = rbind m (\<lambda>x. rbind (k x) l)"
  by (cases m) auto

lemma dbind_None [simp, bind_simps]: "dbind None k = None"
  by (simp add: dbind_def)

lemma dbind_Inl [simp, bind_simps]: "dbind (Some (Inl f)) k = Some (Inl f)"
  by (simp add: dbind_def)

lemma dbind_Inr [simp, bind_simps]: "dbind (Some (Inr x)) k = k x"
  by (simp add: dbind_def)

lemma dbind_assoc: "dbind (dbind m k) l = dbind m (\<lambda>x. dbind (k x) l)"
  by (cases m) (auto simp: dbind_def split: sum.splits Option.bind_splits)

lemma dbind_eq_Inr [bind_simps]:
  "dbind m k = Some (Inr y) \<longleftrightarrow> (\<exists>x. m = Some (Inr x) \<and> k x = Some (Inr y))"
  by (auto simp: dbind_def split: option.splits sum.splits Option.bind_splits)

lemma dbind_eq_Inl [bind_simps]:
  "dbind m k = Some (Inl f) \<longleftrightarrow>
     m = Some (Inl f) \<or> (\<exists>x. m = Some (Inr x) \<and> k x = Some (Inl f))"
  by (auto simp: dbind_def split: option.splits sum.splits Option.bind_splits)

lemma dbind_mono [partial_function_mono]:
  assumes "mono_option B" and "\<And>y. mono_option (\<lambda>f. C y f)"
  shows "mono_option (\<lambda>f. dbind (B f) (\<lambda>y. C y f))"
  unfolding dbind_def
proof (rule bind_mono [OF assms(1)])
  fix r
  show "mono_option (\<lambda>f. case r of Inl g \<Rightarrow> Some (Inl g) | Inr x \<Rightarrow> C x f)"
    by (cases r) (auto intro: assms(2) option.const_mono)
qed

lemma ec_bool_no_error [simp]: "\<not> ec_bool no_error"
  by (simp add: ec_bool_def no_error_def)

lemma throw_if_set_apply [simp]:
  "throw_if_set (v, ec, s) = (if ec_bool ec then Inl ec else Inr v, s)"
  by (simp add: throw_if_set_def)

lemma int_of_ssize_id: "- (2 ^ 31) \<le> r \<Longrightarrow> r < 2 ^ 31 \<Longrightarrow> int_of_ssize r = r"
  by (simp add: int_of_ssize_def)

lemma size_of_int_nonneg: "0 \<le> r \<Longrightarrow> r < 2 ^ 64 \<Longrightarrow> size_of_int r = nat r"
  by (simp add: size_of_int_def)

lemma size_add_small:
  "0 \<le> r \<Longrightarrow> int n + r < 2 ^ 64 \<Longrightarrow> size_add n r = n + nat r"
  by (simp add: size_add_def nat_add_distrib)

lemma of_char_digit_char: "d < 10 \<Longrightarrow> of_char (digit_char d) = (48 + d :: nat)"
proof -
  assume "d < 10"
  then have "d \<in> {0, 1, 2, 3, 4, 5, 6, 7, 8, 9}" by auto
  then show ?thesis by (auto simp: digit_char_def)
qed

lemma parse_dec_snoc: "parse_dec (s @ [c]) = parse_dec s * 10 + (of_char c - 48)"
  by (simp add: parse_dec_def)

lemma parse_dec_to_string: "parse_dec (to_string n) = n"
proof (induction n rule: to_string.induct)
  case (1 n)
  show ?case
  proof (cases "n < 10")
    case True
    then show ?thesis
      by (simp add: to_string.simps [of n] parse_dec_def of_char_digit_char)
  next
    case False
    then have "parse_dec (to_string n) = parse_dec (to_string (n div 10)) * 10 + n mod 10"
      by (simp add: to_string.simps [of n] parse_dec_snoc of_char_digit_char)
    with 1 False show ?thesis by simp
  qed
qed

lemma to_string_inject: "to_string m = to_string n \<longleftrightarrow> m = n"
  by (metis parse_dec_to_string)

lemma NUL_notin_to_string: "NUL \<notin> set (to_string n)"
proof (induction n rule: to_string.induct)
  case (1 n)
  have "digit_char d \<noteq> NUL" if "d < 10" for d
    using of_char_digit_char [OF that] by auto
  then show ?case
    using 1 by (cases "n < 10") (auto simp: to_string.simps [of n] dest: sym)
qed

lemma length_to_string_byte: "n < 256 \<Longrightarrow> length (to_string n) \<le> 3"
  by (simp add: to_string.simps)

lemma length_overwrite [simp]: "length (overwrite mem bs) = length mem"
  by (simp add: overwrite_def)

lemma take_overwrite: "length bs \<le> length mem \<Longrightarrow> take (length bs) (overwrite mem bs) = bs"
  by (simp add: overwrite_def)

lemma length_filter_neq:
  "distinct xs \<Longrightarrow> length (filter (\<lambda>x. x \<noteq> a) xs) = (if a \<in> set xs then length xs - 1 else length xs)"
proof (induction xs)
  case (Cons x xs)
  then show ?case
    by (cases xs) (auto simp: filter_id_conv)
qed simp

lemma find_ptr_SomeD:
  "find_ptr P ps = Inr (Some (i, x)) \<Longrightarrow> i < length ps \<and> ps ! i = Some x \<and> P x"
  by (induction P ps arbitrary: i rule: find_ptr.induct)
    (auto simp: bind_simps split: if_splits)

lemma find_ptr_NoneD:
  "find_ptr P ps = Inr None \<Longrightarrow> Some x \<in> set ps \<Longrightarrow> \<not> P x"
  by (induction P ps rule: find_ptr.induct) (auto simp: bind_simps split: if_splits)

lemma find_ptr_first:
  "find_ptr P ps = Inr (Some (i, x)) \<Longrightarrow> k < i \<Longrightarrow> \<exists>y. ps ! k = Some y \<and> \<not> P y"
proof (induction P ps arbitrary: i k rule: find_ptr.induct)
  case (3 P y ps)
  then show ?case by (cases k) (auto simp: bind_simps split: if_splits)
qed auto

lemma find_ptr_map_Some_append:
  "\<forall>x \<in> set xs. \<not> P x \<Longrightarrow> P y \<Longrightarrow> find_ptr P (map Some xs @ Some y # ps) = Inr (Some (length xs, y))"
  by (induction xs) auto

lemma find_ptr_map_Some_none: "\<forall>x \<in> set xs. \<not> P x \<Longrightarrow> find_ptr P (map Some xs) = Inr None"
  by (induction xs) auto

lemma find_ptr_total: "None \<notin> set ps \<Longrightarrow> \<exists>r. find_ptr P ps = Inr r"
  by (induction P ps rule: find_ptr.induct) auto

section \<open>The contract of a pair of overloads\<close>

text \<open>
  Every operation that can fail has two overloads: one reports through an error code it is
  given, one throws. The locale states what the second promises in terms of the first, and
  what a caller can conclude.
\<close>

locale overload_pair =
  fixes reporting :: "'a \<Rightarrow> error_code \<Rightarrow> ('v \<times> error_code \<times> 's) run"
    and throwing :: "'a \<Rightarrow> ((error_code + 'v) \<times> 's) run"
  assumes throwing_eq:
    "throwing a = dbind (reporting a no_error) (\<lambda>r. Some (Inr (throw_if_set r)))"
begin

lemma throws_iff:
  "throwing a = Some (Inr (Inl ec, s)) \<longleftrightarrow>
     ec_bool ec \<and> (\<exists>v. reporting a no_error = Some (Inr (v, ec, s)))"
  by (auto simp: throwing_eq bind_simps throw_if_set_def split: if_splits prod.splits)

lemma returns_iff:
  "throwing a = Some (Inr (Inr v, s)) \<longleftrightarrow>
     (\<exists>ec. \<not> ec_bool ec \<and> reporting a no_error = Some (Inr (v, ec, s)))"
  by (auto simp: throwing_eq bind_simps throw_if_set_def split: if_splits prod.splits)

lemma faults_iff: "throwing a = Some (Inl f) \<longleftrightarrow> reporting a no_error = Some (Inl f)"
  by (auto simp: throwing_eq bind_simps)

lemma diverges_iff: "throwing a = None \<longleftrightarrow> reporting a no_error = None"
  by (cases "reporting a no_error") (auto simp: throwing_eq dbind_def split: sum.splits)

end

end
