(* ===== verification/Buffers.thy ===== *)
theory Buffers
  imports Yonaa_Prelude
begin

text \<open>
  \<open>include/yonaa/buffer.hpp\<close>: the byte buffer. A \<open>std::vector<char>\<close> is a list of
  characters (a HOL \<open>char\<close> is one byte). Constructors that read through a pointer take the
  memory block the pointer leads to and end in \<open>Out_of_bounds\<close> where they would read past it.
\<close>

section \<open>Model\<close>

record buffer =
  buf_data :: bytes

definition buffer_empty :: buffer where
  "buffer_empty = \<lparr>buf_data = []\<rparr>"

definition buffer_from :: "bytes \<Rightarrow> nat \<Rightarrow> buffer result" where
  "buffer_from mem n =
     (if n \<le> length mem then Inr \<lparr>buf_data = take n mem\<rparr> else Inl Out_of_bounds)"

text \<open>\<open>std::vector::resize\<close> drops the tail or appends value-initialised elements.\<close>

definition vector_resize :: "nat \<Rightarrow> bytes \<Rightarrow> bytes" where
  "vector_resize n xs = take n xs @ replicate (n - length xs) NUL"

definition buffer_sized :: "nat \<Rightarrow> buffer" where
  "buffer_sized n = \<lparr>buf_data = vector_resize n []\<rparr>"

text \<open>The array constructor delegates to a constructor that takes a \<open>const char *\<close>, so it can
  only be instantiated with a character type, for which \<open>sizeof(T)\<close> is 1. \<open>N\<close> is the
  number of elements of the array.\<close>

definition buffer_of_array :: "bytes \<Rightarrow> buffer result" where
  "buffer_of_array arr = buffer_from arr (1 * (length arr - 1))"

definition buffer_of_string :: "string \<Rightarrow> buffer result" where
  "buffer_of_string s = buffer_from s (length s)"

definition buffer_size :: "buffer \<Rightarrow> nat" where
  "buffer_size b = length (buf_data b)"

definition is_empty :: "buffer \<Rightarrow> bool" where
  "is_empty b \<longleftrightarrow> buffer_size b = 0"

definition memset :: "bytes \<Rightarrow> char \<Rightarrow> nat \<Rightarrow> bytes" where
  "memset mem c n = replicate n c @ drop n mem"

definition buffer_zero :: "buffer \<Rightarrow> buffer" where
  "buffer_zero b = b\<lparr>buf_data := memset (buf_data b) NUL (buffer_size b)\<rparr>"

definition buffer_bool :: "buffer \<Rightarrow> bool" where
  "buffer_bool b \<longleftrightarrow> buffer_size b > 0"

definition buffer_resize :: "buffer \<Rightarrow> nat \<Rightarrow> buffer" where
  "buffer_resize b n = b\<lparr>buf_data := vector_resize n (buf_data b)\<rparr>"

definition buffer_str :: "buffer \<Rightarrow> string" where
  "buffer_str b = take (buffer_size b) (buf_data b)"

text \<open>\<open>std::memcmp\<close> on the first \<open>n\<close> bytes of two blocks: the difference of the first two
  bytes that differ, 0 if there are none. Its caller must own \<open>n\<close> bytes of both blocks.\<close>

fun memcmp_bytes :: "bytes \<Rightarrow> bytes \<Rightarrow> int" where
  "memcmp_bytes (a # as) (b # bs) =
     (if a = b then memcmp_bytes as bs else int (of_char a) - int (of_char b))"
| "memcmp_bytes _ _ = 0"

definition memcmp :: "bytes \<Rightarrow> bytes \<Rightarrow> nat \<Rightarrow> int result" where
  "memcmp a b n =
     (if n \<le> length a \<and> n \<le> length b then Inr (memcmp_bytes (take n a) (take n b))
      else Inl Out_of_bounds)"

definition buffer_eq :: "buffer \<Rightarrow> buffer \<Rightarrow> bool result" where
  "buffer_eq b other =
     (if buffer_size b \<noteq> buffer_size other then Inr False
      else rbind (memcmp (buf_data b) (buf_data other) (buffer_size b)) (\<lambda>r. Inr (r \<noteq> 0)))"

section \<open>Lemmas\<close>

lemma length_vector_resize [simp]: "length (vector_resize n xs) = n"
  by (simp add: vector_resize_def)

lemma vector_resize_shrink: "n \<le> length xs \<Longrightarrow> vector_resize n xs = take n xs"
  by (simp add: vector_resize_def)

lemma buffer_size_sized [simp]: "buffer_size (buffer_sized n) = n"
  by (simp add: buffer_size_def buffer_sized_def)

lemma buffer_size_empty [simp]: "buffer_size buffer_empty = 0"
  by (simp add: buffer_size_def buffer_empty_def)

lemma buffer_size_resize [simp]: "buffer_size (buffer_resize b n) = n"
  by (simp add: buffer_size_def buffer_resize_def)

lemma memcmp_bytes_eq_0: "length a = length b \<Longrightarrow> memcmp_bytes a b = 0 \<longleftrightarrow> a = b"
  by (induction a b rule: memcmp_bytes.induct) (auto simp: of_char_eq_iff)

lemma memcmp_zero_iff:
  "n \<le> length a \<Longrightarrow> n \<le> length b \<Longrightarrow>
     (\<exists>r. memcmp a b n = Inr r) \<and> (memcmp a b n = Inr 0 \<longleftrightarrow> take n a = take n b)"
  by (simp add: memcmp_def memcmp_bytes_eq_0)

section \<open>Properties\<close>

text \<open>Building a buffer from a string and reading it back with \<open>str\<close> gives the string,
  the empty string included; the buffer has the string's size and converts to true exactly
  when the string is not empty.\<close>

lemma buffer_string_roundtrip:
  "\<exists>b. buffer_of_string s = Inr b \<and> buffer_str b = s \<and> buffer_size b = length s
     \<and> (buffer_bool b \<longleftrightarrow> s \<noteq> []) \<and> (is_empty b \<longleftrightarrow> s = [])"
  by (simp add: buffer_of_string_def buffer_from_def buffer_str_def buffer_size_def
      buffer_bool_def is_empty_def)

text \<open>The array constructor never reads out of bounds and keeps all elements but the last:
  a string literal loses its terminator, and any other array loses an element of data.\<close>

lemma buffer_of_array_drops_last:
  "buffer_of_array arr = Inr \<lparr>buf_data = butlast arr\<rparr>"
  by (simp add: buffer_of_array_def buffer_from_def butlast_conv_take)

text \<open>\<open>resize\<close> followed by reading gives exactly the requested number of bytes: the old
  bytes as far as they go, then zeros; resizing twice, the second time to no more than the
  first, is the same as resizing once.\<close>

lemma buffer_resize_spec:
  "buffer_str (buffer_resize b n) =
     take n (buffer_str b) @ replicate (n - buffer_size b) NUL
   \<and> buffer_resize (buffer_resize b (n + m)) n = buffer_resize b n"
  by (simp add: buffer_str_def buffer_resize_def vector_resize_def buffer_size_def min_def)

text \<open>What \<open>operator==\<close> of \<open>buffer\<close> computes: true exactly when the two buffers have the
  same size and different contents. In particular a buffer is never equal to itself; the
  documentation asks for the opposite.\<close>

lemma buffer_eq_inverted:
  "buffer_eq a b = Inr (buffer_size a = buffer_size b \<and> buf_data a \<noteq> buf_data b)"
  by (auto simp: buffer_eq_def memcmp_def buffer_size_def memcmp_bytes_eq_0)

end
