(* ===== verification/Yonaa_Env.thy ===== *)
theory Yonaa_Env
  imports Yonaa_Prelude
begin

text \<open>
  The environment the library is linked against: the POSIX socket calls, the resolver, the
  text conversion \<open>inet_ntop\<close> and the operators of the external \<open>bitmask\<close> package. None of
  that code is part of the repository, so it is a parameter of the model: a record of
  functions over a world type \<open>'w\<close>, which every operation that makes a system call takes
  as its first argument. What the library relies on is stated as predicates on that record
  (\<open>bitmask_lib\<close>, \<open>send_contract\<close>, \<open>recv_contract\<close>, \<open>inet_ntop_contract\<close>,
  \<open>poll_contract\<close>), taken from the manual pages.

  \<open>traced E\<close> is the environment \<open>E\<close> with every call written to a log; theorems about
  which calls are made, in which order and with which descriptors are stated over it.
  \<open>sim\<close> is a small executable kernel that meets all contracts; the concrete runs of the
  development use it.
\<close>

unbundle bit_operations_syntax

section \<open>Constants of the platform (Linux)\<close>

abbreviation (input) AF_UNSPEC :: int where "AF_UNSPEC \<equiv> 0"
abbreviation (input) AF_INET :: int where "AF_INET \<equiv> 2"
abbreviation (input) AF_INET6 :: int where "AF_INET6 \<equiv> 10"
abbreviation (input) SOCK_STREAM :: int where "SOCK_STREAM \<equiv> 1"
abbreviation (input) SOL_SOCKET :: int where "SOL_SOCKET \<equiv> 1"
abbreviation (input) SO_REUSEADDR :: int where "SO_REUSEADDR \<equiv> 2"
abbreviation (input) SO_PROTOCOL :: int where "SO_PROTOCOL \<equiv> 38"
abbreviation (input) SHUT_RDWR :: int where "SHUT_RDWR \<equiv> 2"
abbreviation (input) AI_PASSIVE :: "32 word" where "AI_PASSIVE \<equiv> 0x01"
abbreviation (input) AI_ADDRCONFIG :: "32 word" where "AI_ADDRCONFIG \<equiv> 0x20"
abbreviation (input) POLLIN :: "32 word" where "POLLIN \<equiv> 0x01"
abbreviation (input) POLLOUT :: "32 word" where "POLLOUT \<equiv> 0x04"
abbreviation (input) POLLERR :: "32 word" where "POLLERR \<equiv> 0x08"
abbreviation (input) POLLHUP :: "32 word" where "POLLHUP \<equiv> 0x10"
abbreviation (input) MSG_PEEK :: "32 word" where "MSG_PEEK \<equiv> 0x02"
abbreviation (input) MSG_DONTROUTE :: "32 word" where "MSG_DONTROUTE \<equiv> 0x04"
abbreviation (input) MSG_EOR :: "32 word" where "MSG_EOR \<equiv> 0x80"
abbreviation (input) MSG_NOSIGNAL :: "32 word" where "MSG_NOSIGNAL \<equiv> 0x4000"
abbreviation (input) INET_ADDRSTRLEN :: nat where "INET_ADDRSTRLEN \<equiv> 16"
abbreviation (input) INET6_ADDRSTRLEN :: nat where "INET6_ADDRSTRLEN \<equiv> 46"
abbreviation (input) sizeof_sockaddr_storage :: nat where "sizeof_sockaddr_storage \<equiv> 128"
abbreviation (input) MAX_RW_COUNT :: int where "MAX_RW_COUNT \<equiv> 0x7ffff000"

section \<open>The environment\<close>

text \<open>The linked list \<open>getaddrinfo\<close> returns, and the hints it takes.\<close>

datatype addrinfo =
  Addrinfo (ai_protocol: int) (ai_addr: bytes) (ai_addrlen: nat) (ai_next: "addrinfo option")

record gai_hints =
  h_family :: int
  h_socktype :: int
  h_flags :: "32 word"

record pollfd =
  pfd_fd :: socket_type
  pfd_events :: "16 word"
  pfd_revents :: "16 word"

record 'w env =
  bm_or :: "mask \<Rightarrow> mask \<Rightarrow> mask"
  bm_and :: "mask \<Rightarrow> mask \<Rightarrow> mask"
  inet_ntop :: "int \<Rightarrow> bytes \<Rightarrow> nat \<Rightarrow> string option"
  sys_errno :: "'w \<Rightarrow> int"
  sys_socket :: "int \<Rightarrow> int \<Rightarrow> int \<Rightarrow> 'w \<Rightarrow> int \<times> 'w"
  sys_connect :: "socket_type \<Rightarrow> bytes \<Rightarrow> nat \<Rightarrow> 'w \<Rightarrow> int \<times> 'w"
  sys_setsockopt :: "socket_type \<Rightarrow> int \<Rightarrow> int \<Rightarrow> int \<Rightarrow> 'w \<Rightarrow> int \<times> 'w"
  sys_bind :: "socket_type \<Rightarrow> bytes \<Rightarrow> nat \<Rightarrow> 'w \<Rightarrow> int \<times> 'w"
  sys_listen :: "socket_type \<Rightarrow> int \<Rightarrow> 'w \<Rightarrow> int \<times> 'w"
  sys_accept :: "socket_type \<Rightarrow> 'w \<Rightarrow> (int \<times> bytes \<times> nat) \<times> 'w"
  sys_getsockname :: "socket_type \<Rightarrow> 'w \<Rightarrow> (int \<times> bytes \<times> nat) \<times> 'w"
  sys_getpeername :: "socket_type \<Rightarrow> 'w \<Rightarrow> (int \<times> bytes \<times> nat) \<times> 'w"
  sys_getsockopt :: "socket_type \<Rightarrow> int \<Rightarrow> int \<Rightarrow> int \<Rightarrow> 'w \<Rightarrow> (int \<times> int) \<times> 'w"
  sys_send :: "socket_type \<Rightarrow> bytes \<Rightarrow> 32 word \<Rightarrow> 'w \<Rightarrow> int \<times> 'w"
  sys_recv :: "socket_type \<Rightarrow> nat \<Rightarrow> 32 word \<Rightarrow> 'w \<Rightarrow> (int \<times> bytes) \<times> 'w"
  sys_poll :: "pollfd list \<Rightarrow> int \<Rightarrow> 'w \<Rightarrow> (int \<times> (nat \<Rightarrow> 16 word)) \<times> 'w"
  sys_shutdown :: "socket_type \<Rightarrow> int \<Rightarrow> 'w \<Rightarrow> int \<times> 'w"
  sys_close :: "socket_type \<Rightarrow> 'w \<Rightarrow> int \<times> 'w"
  sys_getaddrinfo :: "string option \<Rightarrow> string \<Rightarrow> gai_hints \<Rightarrow> 'w \<Rightarrow> (int \<times> addrinfo option) \<times> 'w"
  sys_freeaddrinfo :: "addrinfo \<Rightarrow> 'w \<Rightarrow> 'w"

text \<open>
  The calls that fill memory of the caller return what that memory holds afterwards.
  \<open>sys_accept\<close>, \<open>sys_getsockname\<close> and \<open>sys_getpeername\<close> return the result, the contents of
  the caller's \<open>sockaddr_storage\<close> and the length field; the storage is not initialised by
  the callers, so its contents after a failed call are the environment's choice too.
  \<open>sys_getsockopt\<close> takes the old value of the option variable and returns the new one.
  \<open>sys_recv\<close> returns the bytes written to the front of the buffer. \<open>sys_poll\<close> returns the
  \<open>revents\<close> field of every entry after the call.
\<close>

section \<open>Contracts\<close>

definition bitmask_lib :: "'w env \<Rightarrow> bool" where
  "bitmask_lib E \<longleftrightarrow>
     (\<forall>a b. bm_or E a b = a OR b) \<and> (\<forall>a b. bm_and E a b = a AND b)"

definition send_contract :: "'w env \<Rightarrow> bool" where
  "send_contract E \<longleftrightarrow> (\<forall>fd bs fl w r w'. bs \<noteq> [] \<longrightarrow> sys_send E fd bs fl w = (r, w') \<longrightarrow>
     (r = -1 \<and> 0 < sys_errno E w') \<or> (1 \<le> r \<and> r \<le> int (length bs) \<and> r \<le> MAX_RW_COUNT))"

definition recv_contract :: "'w env \<Rightarrow> bool" where
  "recv_contract E \<longleftrightarrow> (\<forall>fd n fl w r bs w'. sys_recv E fd n fl w = ((r, bs), w') \<longrightarrow>
     (r = -1 \<and> bs = [] \<and> 0 < sys_errno E w') \<or>
     (0 \<le> r \<and> r \<le> int n \<and> r \<le> MAX_RW_COUNT \<and> length bs = nat r))"

definition inet_ntop_contract :: "'w env \<Rightarrow> bool" where
  "inet_ntop_contract E \<longleftrightarrow> (\<forall>src n s. inet_ntop E AF_INET src n = Some s \<longrightarrow>
     length s < n \<and> length s < INET_ADDRSTRLEN \<and> NUL \<notin> set s) \<and>
     (\<forall>src src' n. take 4 src = take 4 src' \<longrightarrow> inet_ntop E AF_INET src n = inet_ntop E AF_INET src' n)"

text \<open>A call of \<open>poll\<close> that reports a positive count reports as many entries with a non-zero
  \<open>revents\<close>; a count of 0 leaves them all 0.\<close>

definition poll_contract :: "'w env \<Rightarrow> bool" where
  "poll_contract E \<longleftrightarrow> (\<forall>ps t w n f w'. sys_poll E ps t w = ((n, f), w') \<longrightarrow> 0 \<le> n \<longrightarrow>
     n = int (length (filter (\<lambda>i. f i \<noteq> 0) [0..<length ps])))"

section \<open>Traces of system calls\<close>

datatype sys_event =
    Ev_socket int int int int
  | Ev_connect socket_type int
  | Ev_setsockopt socket_type int int int int
  | Ev_bind socket_type int
  | Ev_listen socket_type int int
  | Ev_accept socket_type int
  | Ev_getsockname socket_type
  | Ev_getpeername socket_type
  | Ev_getsockopt socket_type int int
  | Ev_send socket_type bytes "32 word" int
  | Ev_recv socket_type nat "32 word" int
  | Ev_poll "socket_type list"
  | Ev_shutdown socket_type int
  | Ev_close socket_type
  | Ev_getaddrinfo "string option" string gai_hints int
  | Ev_freeaddrinfo addrinfo

type_synonym 'w tw = "'w \<times> sys_event list"

definition logged :: "('r \<Rightarrow> sys_event) \<Rightarrow> ('w \<Rightarrow> 'r \<times> 'w) \<Rightarrow> 'w tw \<Rightarrow> 'r \<times> 'w tw" where
  "logged ev f = (\<lambda>(w, t). case f w of (r, w') \<Rightarrow> (r, (w', t @ [ev r])))"

definition traced :: "'w env \<Rightarrow> ('w tw) env" where
  "traced E = \<lparr>
     bm_or = bm_or E,
     bm_and = bm_and E,
     inet_ntop = inet_ntop E,
     sys_errno = (\<lambda>(w, t). sys_errno E w),
     sys_socket = (\<lambda>d ty p. logged (Ev_socket d ty p) (sys_socket E d ty p)),
     sys_connect = (\<lambda>fd a n. logged (Ev_connect fd) (sys_connect E fd a n)),
     sys_setsockopt = (\<lambda>fd l n v. logged (Ev_setsockopt fd l n v) (sys_setsockopt E fd l n v)),
     sys_bind = (\<lambda>fd a n. logged (Ev_bind fd) (sys_bind E fd a n)),
     sys_listen = (\<lambda>fd n. logged (Ev_listen fd n) (sys_listen E fd n)),
     sys_accept = (\<lambda>fd. logged (\<lambda>r. Ev_accept fd (fst r)) (sys_accept E fd)),
     sys_getsockname = (\<lambda>fd. logged (\<lambda>_. Ev_getsockname fd) (sys_getsockname E fd)),
     sys_getpeername = (\<lambda>fd. logged (\<lambda>_. Ev_getpeername fd) (sys_getpeername E fd)),
     sys_getsockopt = (\<lambda>fd l n v. logged (\<lambda>_. Ev_getsockopt fd l n) (sys_getsockopt E fd l n v)),
     sys_send = (\<lambda>fd bs fl. logged (Ev_send fd bs fl) (sys_send E fd bs fl)),
     sys_recv = (\<lambda>fd n fl. logged (\<lambda>r. Ev_recv fd n fl (fst r)) (sys_recv E fd n fl)),
     sys_poll = (\<lambda>ps tm. logged (\<lambda>_. Ev_poll (map pfd_fd ps)) (sys_poll E ps tm)),
     sys_shutdown = (\<lambda>fd how. logged (\<lambda>_. Ev_shutdown fd how) (sys_shutdown E fd how)),
     sys_close = (\<lambda>fd. logged (\<lambda>_. Ev_close fd) (sys_close E fd)),
     sys_getaddrinfo = (\<lambda>h s hi. logged (\<lambda>r. Ev_getaddrinfo h s hi (fst r)) (sys_getaddrinfo E h s hi)),
     sys_freeaddrinfo = (\<lambda>ai (w, t). (sys_freeaddrinfo E ai w, t @ [Ev_freeaddrinfo ai]))\<rparr>"

text \<open>Descriptors a trace opened by a successful \<open>socket\<close>, and descriptors it closed.\<close>

fun opened :: "sys_event list \<Rightarrow> socket_type list" where
  "opened [] = []"
| "opened (Ev_socket d ty p r # t) = (if r = -1 then opened t else r # opened t)"
| "opened (_ # t) = opened t"

fun closed :: "sys_event list \<Rightarrow> socket_type list" where
  "closed [] = []"
| "closed (Ev_close fd # t) = fd # closed t"
| "closed (_ # t) = closed t"

text \<open>The bytes the kernel took on a descriptor, in order.\<close>

fun sent_on :: "socket_type \<Rightarrow> sys_event list \<Rightarrow> bytes" where
  "sent_on fd [] = []"
| "sent_on fd (Ev_send fd' bs fl r # t) =
     (if fd' = fd \<and> 0 \<le> r then take (nat r) bs @ sent_on fd t else sent_on fd t)"
| "sent_on fd (_ # t) = sent_on fd t"

section \<open>A small kernel\<close>

record kernel =
  k_next :: int
  k_open :: "int list"
  k_listening :: "int list"
  k_refuse :: nat
  k_backlog :: nat
  k_inbox :: "bytes list"
  k_chunk :: nat
  k_errno :: int

definition k0 :: kernel where
  "k0 = \<lparr>k_next = 3, k_open = [], k_listening = [], k_refuse = 0, k_backlog = 0,
         k_inbox = [], k_chunk = 0, k_errno = 0\<rparr>"

definition sim_addr :: bytes where
  "sim_addr = [CHR 0x02, NUL, CHR 0x13, CHR 0x88, CHR 0x7F, NUL, NUL, CHR 0x01] @ replicate 8 NUL"

definition sim_revents :: "kernel \<Rightarrow> pollfd \<Rightarrow> 16 word" where
  "sim_revents k p =
     (if (pfd_fd p \<in> set (k_listening k) \<and> 0 < k_backlog k)
         \<or> (pfd_fd p \<notin> set (k_listening k) \<and> k_inbox k \<noteq> [])
      then 1 else 0)"

definition sim :: "kernel env" where
  "sim = \<lparr>
     bm_or = (OR),
     bm_and = (AND),
     inet_ntop = (\<lambda>fam src n.
       if fam = AF_INET \<and> 4 \<le> length src \<and> INET_ADDRSTRLEN \<le> n
       then Some (to_string (of_char (src ! 0)) @ ''.'' @ to_string (of_char (src ! 1)) @ ''.''
                  @ to_string (of_char (src ! 2)) @ ''.'' @ to_string (of_char (src ! 3)))
       else None),
     sys_errno = k_errno,
     sys_socket = (\<lambda>d ty p k. (k_next k, k\<lparr>k_next := k_next k + 1, k_open := k_next k # k_open k\<rparr>)),
     sys_connect = (\<lambda>fd a n k.
       if 0 < k_refuse k then (-1, k\<lparr>k_refuse := k_refuse k - 1, k_errno := 111\<rparr>) else (0, k)),
     sys_setsockopt = (\<lambda>fd l n v k. (0, k)),
     sys_bind = (\<lambda>fd a n k.
       if 0 < k_refuse k then (-1, k\<lparr>k_refuse := k_refuse k - 1, k_errno := 98\<rparr>) else (0, k)),
     sys_listen = (\<lambda>fd n k. (0, k\<lparr>k_listening := fd # k_listening k\<rparr>)),
     sys_accept = (\<lambda>fd k.
       if k_backlog k = 0 then ((-1, replicate 128 NUL, 128), k\<lparr>k_errno := 11\<rparr>)
       else ((k_next k, sim_addr @ replicate 112 NUL, 16),
             k\<lparr>k_next := k_next k + 1, k_open := k_next k # k_open k, k_backlog := k_backlog k - 1\<rparr>)),
     sys_getsockname = (\<lambda>fd k. ((0, sim_addr @ replicate 112 NUL, 16), k)),
     sys_getpeername = (\<lambda>fd k. ((0, sim_addr @ replicate 112 NUL, 16), k)),
     sys_getsockopt = (\<lambda>fd l n v k. ((0, 6), k)),
     sys_send = (\<lambda>fd bs fl k.
       if k_refuse k = 0 then (min MAX_RW_COUNT (min (int (Suc (k_chunk k))) (int (length bs))), k)
       else (-1, k\<lparr>k_refuse := k_refuse k - 1, k_errno := 32\<rparr>)),
     sys_recv = (\<lambda>fd n fl k.
       (case k_inbox k of [] \<Rightarrow> ((0, []), k)
        | m # ms \<Rightarrow> (let bs = take (min n 4096) m in
            ((int (length bs), bs), if fl AND MSG_PEEK = 0 then k\<lparr>k_inbox := ms\<rparr> else k)))),
     sys_poll = (\<lambda>ps tm k.
       ((int (length (filter (\<lambda>i. sim_revents k (ps ! i) \<noteq> 0) [0..<length ps])),
         (\<lambda>i. if i < length ps then sim_revents k (ps ! i) else 0)), k)),
     sys_shutdown = (\<lambda>fd how k. (0, k)),
     sys_close = (\<lambda>fd k. (0, k\<lparr>k_open := removeAll fd (k_open k)\<rparr>)),
     sys_getaddrinfo = (\<lambda>h s hi k.
       if s = [] then ((-2, None), k)
       else ((0, Some (Addrinfo 6 sim_addr 16 (Some (Addrinfo 6 sim_addr 16 None)))), k)),
     sys_freeaddrinfo = (\<lambda>ai k. k)\<rparr>"

section \<open>Lemmas on contracts, traces and the small kernel\<close>

lemma bitmask_lib_or: "bitmask_lib E \<Longrightarrow> bm_or E a b = a OR b"
  by (simp add: bitmask_lib_def)

lemma bitmask_lib_and: "bitmask_lib E \<Longrightarrow> bm_and E a b = a AND b"
  by (simp add: bitmask_lib_def)

lemma logged_apply [simp]: "logged ev f (w, t) = (case f w of (r, w') \<Rightarrow> (r, (w', t @ [ev r])))"
  by (simp add: logged_def)

text \<open>The calls of a traced environment, one equation each.\<close>

lemma traced_simps:
  "bm_or (traced E) = bm_or E"
  "bm_and (traced E) = bm_and E"
  "inet_ntop (traced E) = inet_ntop E"
  "sys_errno (traced E) = (\<lambda>(w, t). sys_errno E w)"
  "sys_socket (traced E) = (\<lambda>d ty p. logged (Ev_socket d ty p) (sys_socket E d ty p))"
  "sys_connect (traced E) = (\<lambda>fd a n. logged (Ev_connect fd) (sys_connect E fd a n))"
  "sys_setsockopt (traced E) = (\<lambda>fd l n v. logged (Ev_setsockopt fd l n v) (sys_setsockopt E fd l n v))"
  "sys_bind (traced E) = (\<lambda>fd a n. logged (Ev_bind fd) (sys_bind E fd a n))"
  "sys_listen (traced E) = (\<lambda>fd n. logged (Ev_listen fd n) (sys_listen E fd n))"
  "sys_accept (traced E) = (\<lambda>fd. logged (\<lambda>r. Ev_accept fd (fst r)) (sys_accept E fd))"
  "sys_getsockname (traced E) = (\<lambda>fd. logged (\<lambda>_. Ev_getsockname fd) (sys_getsockname E fd))"
  "sys_getpeername (traced E) = (\<lambda>fd. logged (\<lambda>_. Ev_getpeername fd) (sys_getpeername E fd))"
  "sys_getsockopt (traced E) = (\<lambda>fd l n v. logged (\<lambda>_. Ev_getsockopt fd l n) (sys_getsockopt E fd l n v))"
  "sys_send (traced E) = (\<lambda>fd bs fl. logged (Ev_send fd bs fl) (sys_send E fd bs fl))"
  "sys_recv (traced E) = (\<lambda>fd n fl. logged (\<lambda>r. Ev_recv fd n fl (fst r)) (sys_recv E fd n fl))"
  "sys_poll (traced E) = (\<lambda>ps tm. logged (\<lambda>_. Ev_poll (map pfd_fd ps)) (sys_poll E ps tm))"
  "sys_shutdown (traced E) = (\<lambda>fd how. logged (\<lambda>_. Ev_shutdown fd how) (sys_shutdown E fd how))"
  "sys_close (traced E) = (\<lambda>fd. logged (\<lambda>_. Ev_close fd) (sys_close E fd))"
  "sys_getaddrinfo (traced E) = (\<lambda>h s hi. logged (\<lambda>r. Ev_getaddrinfo h s hi (fst r)) (sys_getaddrinfo E h s hi))"
  "sys_freeaddrinfo (traced E) = (\<lambda>ai (w, t). (sys_freeaddrinfo E ai w, t @ [Ev_freeaddrinfo ai]))"
  by (simp_all add: traced_def)

lemma opened_append [simp]: "opened (s @ t) = opened s @ opened t"
  by (induction s rule: opened.induct) auto

lemma closed_append [simp]: "closed (s @ t) = closed s @ closed t"
  by (induction s rule: closed.induct) auto

lemma sent_on_append [simp]: "sent_on fd (s @ t) = sent_on fd s @ sent_on fd t"
  by (induction fd s rule: sent_on.induct) auto

lemma send_contract_traced: "send_contract E \<Longrightarrow> send_contract (traced E)"
  unfolding send_contract_def by (fastforce simp: traced_def logged_def split: prod.splits)

lemma recv_contract_traced: "recv_contract E \<Longrightarrow> recv_contract (traced E)"
  unfolding recv_contract_def by (fastforce simp: traced_def logged_def split: prod.splits)

lemma bitmask_lib_traced: "bitmask_lib E \<Longrightarrow> bitmask_lib (traced E)"
  by (simp add: bitmask_lib_def traced_def)

text \<open>The calls of the small kernel, one equation each.\<close>

lemma sim_calls:
  "bm_or sim = (OR)"
  "bm_and sim = (AND)"
  "inet_ntop sim = (\<lambda>fam src n.
       if fam = AF_INET \<and> 4 \<le> length src \<and> INET_ADDRSTRLEN \<le> n
       then Some (to_string (of_char (src ! 0)) @ ''.'' @ to_string (of_char (src ! 1)) @ ''.''
                  @ to_string (of_char (src ! 2)) @ ''.'' @ to_string (of_char (src ! 3)))
       else None)"
  "sys_errno sim = k_errno"
  "sys_socket sim = (\<lambda>d ty p k. (k_next k, k\<lparr>k_next := k_next k + 1, k_open := k_next k # k_open k\<rparr>))"
  "sys_connect sim = (\<lambda>fd a n k.
       if 0 < k_refuse k then (-1, k\<lparr>k_refuse := k_refuse k - 1, k_errno := 111\<rparr>) else (0, k))"
  "sys_setsockopt sim = (\<lambda>fd l n v k. (0, k))"
  "sys_bind sim = (\<lambda>fd a n k.
       if 0 < k_refuse k then (-1, k\<lparr>k_refuse := k_refuse k - 1, k_errno := 98\<rparr>) else (0, k))"
  "sys_listen sim = (\<lambda>fd n k. (0, k\<lparr>k_listening := fd # k_listening k\<rparr>))"
  "sys_accept sim = (\<lambda>fd k.
       if k_backlog k = 0 then ((-1, replicate 128 NUL, 128), k\<lparr>k_errno := 11\<rparr>)
       else ((k_next k, sim_addr @ replicate 112 NUL, 16),
             k\<lparr>k_next := k_next k + 1, k_open := k_next k # k_open k, k_backlog := k_backlog k - 1\<rparr>))"
  "sys_getsockname sim = (\<lambda>fd k. ((0, sim_addr @ replicate 112 NUL, 16), k))"
  "sys_getpeername sim = (\<lambda>fd k. ((0, sim_addr @ replicate 112 NUL, 16), k))"
  "sys_getsockopt sim = (\<lambda>fd l n v k. ((0, 6), k))"
  "sys_send sim = (\<lambda>fd bs fl k.
       if k_refuse k = 0 then (min MAX_RW_COUNT (min (int (Suc (k_chunk k))) (int (length bs))), k)
       else (-1, k\<lparr>k_refuse := k_refuse k - 1, k_errno := 32\<rparr>))"
  "sys_recv sim = (\<lambda>fd n fl k.
       (case k_inbox k of [] \<Rightarrow> ((0, []), k)
        | m # ms \<Rightarrow> (let bs = take (min n 4096) m in
            ((int (length bs), bs), if fl AND MSG_PEEK = 0 then k\<lparr>k_inbox := ms\<rparr> else k))))"
  "sys_poll sim = (\<lambda>ps tm k.
       ((int (length (filter (\<lambda>i. sim_revents k (ps ! i) \<noteq> 0) [0..<length ps])),
         (\<lambda>i. if i < length ps then sim_revents k (ps ! i) else 0)), k))"
  "sys_shutdown sim = (\<lambda>fd how k. (0, k))"
  "sys_close sim = (\<lambda>fd k. (0, k\<lparr>k_open := removeAll fd (k_open k)\<rparr>))"
  "sys_getaddrinfo sim = (\<lambda>h s hi k.
       if s = [] then ((-2, None), k)
       else ((0, Some (Addrinfo 6 sim_addr 16 (Some (Addrinfo 6 sim_addr 16 None)))), k))"
  "sys_freeaddrinfo sim = (\<lambda>ai k. k)"
  by (simp_all add: sim_def)

lemma sim_bitmask_lib: "bitmask_lib sim"
  by (simp add: bitmask_lib_def sim_def)

lemma sim_send_contract: "send_contract sim"
  by (auto simp: send_contract_def sim_def min_def split: if_splits)
    (simp add: Suc_leI)?

lemma sim_recv_contract: "recv_contract sim"
  by (auto simp: recv_contract_def sim_def Let_def split: if_splits list.splits)

lemma sim_poll_contract: "poll_contract sim"
  by (auto simp: poll_contract_def sim_def intro!: arg_cong [where f = length] filter_cong)

lemma sim_inet_ntop_contract: "inet_ntop_contract sim"
proof -
  have len: "length (to_string (of_char c)) \<le> 3" for c
    by (rule length_to_string_byte) (rule nat_of_char_less_256)
  have eq: "4 \<le> length src \<longleftrightarrow> 4 \<le> length src'" "i < 4 \<longrightarrow> 4 \<le> length src \<longrightarrow> src ! i = src' ! i"
    if "take 4 src = take 4 src'" for src src' :: bytes and i
    using that by (metis length_take min.absorb_iff2) (metis nth_take that)
  show ?thesis
    unfolding inet_ntop_contract_def sim_def
  proof (intro conjI allI impI, goal_cases)
    case (1 src n s)
    then show ?case
      using len [of "src ! 0"] len [of "src ! 1"] len [of "src ! 2"] len [of "src ! 3"]
      by (auto split: if_splits)
  next
    case (2 src n s)
    then show ?case
      using len [of "src ! 0"] len [of "src ! 1"] len [of "src ! 2"] len [of "src ! 3"]
      by (auto split: if_splits)
  next
    case (3 src n s)
    then show ?case
      by (auto simp: NUL_notin_to_string split: if_splits)
  next
    case (4 src src' n)
    then show ?case
      using eq [OF 4] by auto
  qed
qed

end
