(* ===== verification/Endpoints.thy ===== *)
theory Endpoints
  imports Buffers Yonaa_Env
begin

text \<open>
  \<open>src/endpoint.cpp\<close>, \<open>include/yonaa/endpoint.hpp\<close> and \<open>src/detail/sockaddr_ops.cpp\<close>: the
  address of a host. An endpoint owns the bytes of a native socket address. A pointer to
  such an address is the list of bytes from there to the end of the block it points into,
  and a read past the end is \<open>Out_of_bounds\<close>. The layout is that of Linux: the family in
  bytes 0 and 1 in host order (little endian), the port in bytes 2 and 3 in network order,
  the IPv4 address at offset 4, the IPv6 address at offset 8.
\<close>

section \<open>Model\<close>

definition byte_at :: "bytes \<Rightarrow> nat \<Rightarrow> nat result" where
  "byte_at mem i = (if i < length mem then Inr (of_char (mem ! i)) else Inl Out_of_bounds)"

definition sa_family :: "bytes \<Rightarrow> int result" where
  "sa_family addr = rbind (byte_at addr 0) (\<lambda>lo. rbind (byte_at addr 1) (\<lambda>hi. Inr (int (lo + 256 * hi))))"

text \<open>\<open>sockaddr_ops::get_in_addr\<close> and \<open>sockaddr_ops::get_port\<close>.\<close>

definition get_in_addr :: "bytes \<Rightarrow> bytes result" where
  "get_in_addr addr = rbind (sa_family addr) (\<lambda>f. Inr (drop (if f = AF_INET then 4 else 8) addr))"

definition get_port :: "bytes \<Rightarrow> nat result" where
  "get_port addr = rbind (byte_at addr 2) (\<lambda>hi. rbind (byte_at addr 3) (\<lambda>lo. Inr (256 * hi + lo)))"

record endpoint =
  ep_protocol :: int
  ep_storage :: buffer

definition endpoint_new :: endpoint where
  "endpoint_new = \<lparr>ep_protocol = 0, ep_storage = buffer_sized sizeof_sockaddr_storage\<rparr>"

definition from_native_address :: "int \<Rightarrow> bytes \<Rightarrow> nat \<Rightarrow> endpoint result" where
  "from_native_address protocol addr addr_size =
     (let e = endpoint_new\<lparr>ep_protocol := protocol, ep_storage := buffer_sized addr_size\<rparr>
      in if addr_size \<le> length addr
         then Inr (e\<lparr>ep_storage := \<lparr>buf_data = overwrite (buf_data (ep_storage e)) (take addr_size addr)\<rparr>\<rparr>)
         else Inl Out_of_bounds)"

definition ep_data :: "endpoint \<Rightarrow> bytes" where
  "ep_data e = buf_data (ep_storage e)"

definition family :: "endpoint \<Rightarrow> int result" where
  "family e = sa_family (ep_data e)"

definition protocol :: "endpoint \<Rightarrow> int" where
  "protocol e = ep_protocol e"

definition ep_size :: "endpoint \<Rightarrow> nat" where
  "ep_size e = buffer_size (ep_storage e) mod 2 ^ 32"

text \<open>\<open>addr\<close>: \<open>inet_ntop\<close> writes its text and a terminator to the front of a zeroed block of
  46 bytes; the result is a string of a fixed length read from that block.\<close>

definition addr :: "'w env \<Rightarrow> endpoint \<Rightarrow> string result" where
  "addr E e =
     (let b = buffer_sized INET6_ADDRSTRLEN in
      rbind (get_in_addr (ep_data e)) (\<lambda>src.
        let b' = (case inet_ntop E AF_INET src (buffer_size b) of
                    None \<Rightarrow> buf_data b
                  | Some s \<Rightarrow> overwrite (buf_data b) (s @ [NUL]))
        in rbind (sa_family (ep_data e)) (\<lambda>f.
          if f = AF_INET then Inr (take INET_ADDRSTRLEN b')
          else if f = AF_INET6 then Inr (take INET6_ADDRSTRLEN b')
          else Inr ''INVALID'')))"

definition port :: "endpoint \<Rightarrow> string result" where
  "port e = rbind (sa_family (ep_data e)) (\<lambda>f.
     if f = AF_INET \<or> f = AF_INET6 then rbind (get_port (ep_data e)) (\<lambda>p. Inr (to_string p))
     else Inr ''INVALID'')"

definition ep_str :: "'w env \<Rightarrow> endpoint \<Rightarrow> string result" where
  "ep_str E e = rbind (sa_family (ep_data e)) (\<lambda>f.
     if f = AF_INET then rbind (addr E e) (\<lambda>a. rbind (port e) (\<lambda>p. Inr (a @ '':'' @ p)))
     else if f = AF_INET6 then rbind (addr E e) (\<lambda>a. rbind (port e) (\<lambda>p. Inr (''['' @ a @ '']:'' @ p)))
     else Inr ''INVALID:INVALID'')"

definition ep_eq :: "endpoint \<Rightarrow> endpoint \<Rightarrow> bool result" where
  "ep_eq e other = rbind (memcmp (ep_data e) (ep_data other) (ep_size e)) (\<lambda>r. Inr (r = 0))"

text \<open>A native IPv4 address with port \<open>p\<close> and address bytes \<open>a\<close>, as \<open>bind\<close> and \<open>connect\<close> take it.\<close>

definition sockaddr_in :: "nat \<Rightarrow> bytes \<Rightarrow> bytes" where
  "sockaddr_in p a = [CHR 0x02, NUL, char_of (p div 256), char_of (p mod 256)] @ a @ replicate 8 NUL"

definition sockaddr_in6 :: "nat \<Rightarrow> bytes \<Rightarrow> bytes" where
  "sockaddr_in6 p a =
     [CHR 0x0A, NUL, char_of (p div 256), char_of (p mod 256)] @ replicate 4 NUL @ a @ replicate 4 NUL"

section \<open>Lemmas\<close>

lemma from_native_address_simps:
  "from_native_address p a n =
     (if n \<le> length a then Inr \<lparr>ep_protocol = p, ep_storage = \<lparr>buf_data = take n a\<rparr>\<rparr> else Inl Out_of_bounds)"
  by (simp add: from_native_address_def endpoint_new_def overwrite_def Let_def
      buffer_sized_def vector_resize_def)

lemma ep_data_native [simp]: "ep_data \<lparr>ep_protocol = p, ep_storage = \<lparr>buf_data = bs\<rparr>\<rparr> = bs"
  by (simp add: ep_data_def)

lemma ep_size_data: "length (ep_data e) < 2 ^ 32 \<Longrightarrow> ep_size e = length (ep_data e)"
  by (simp add: ep_size_def ep_data_def buffer_size_def)

lemma sa_family_in [simp]: "sa_family (sockaddr_in p a) = Inr AF_INET"
  by (simp add: sa_family_def byte_at_def sockaddr_in_def)

lemma sa_family_in6 [simp]: "sa_family (sockaddr_in6 p a) = Inr AF_INET6"
  by (simp add: sa_family_def byte_at_def sockaddr_in6_def)

lemma get_port_in [simp]: "p < 65536 \<Longrightarrow> get_port (sockaddr_in p a) = Inr p"
  by (simp add: get_port_def byte_at_def sockaddr_in_def mult.commute less_mult_imp_div_less)

lemma get_port_in6 [simp]: "p < 65536 \<Longrightarrow> get_port (sockaddr_in6 p a) = Inr p"
  by (simp add: get_port_def byte_at_def sockaddr_in6_def mult.commute less_mult_imp_div_less)

lemma get_in_addr_in [simp]: "get_in_addr (sockaddr_in p a) = Inr (a @ replicate 8 NUL)"
  by (simp add: get_in_addr_def) (simp add: sockaddr_in_def)

lemma get_in_addr_in6 [simp]: "get_in_addr (sockaddr_in6 p a) = Inr (a @ replicate 4 NUL)"
  by (simp add: get_in_addr_def) (simp add: sockaddr_in6_def)

section \<open>Properties\<close>

text \<open>\<open>from_native_address\<close> copies exactly the given number of bytes of the native address and
  the protocol, and reads out of bounds exactly when the size exceeds the block; the copy is
  what \<open>data\<close>, \<open>size\<close> and \<open>protocol\<close> give back.\<close>

lemma from_native_address_roundtrip:
  "from_native_address p a n = Inr e \<longleftrightarrow>
     n \<le> length a \<and> ep_data e = take n a \<and> protocol e = p"
  by (cases e; cases "ep_storage e") (auto simp: from_native_address_simps ep_data_def protocol_def)

text \<open>C40: for an IPv4 and for an IPv6 address with port \<open>p\<close>, \<open>port\<close> prints \<open>p\<close> in decimal,
  whatever the address bytes, so the printed port parses back to \<open>p\<close>.\<close>

theorem port_prints_port:
  assumes "p < 65536" and "ep_data e = sockaddr_in p a \<or> ep_data e = sockaddr_in6 p a"
  shows "\<exists>s. port e = Inr s \<and> s = to_string p \<and> parse_dec s = p"
  using assms by (auto simp: port_def parse_dec_to_string)

theorem port_prints_port_witness:
  "port \<lparr>ep_protocol = 6, ep_storage = \<lparr>buf_data = sockaddr_in 5000 (replicate 4 NUL)\<rparr>\<rparr> = Inr ''5000''"
proof -
  let ?e = "\<lparr>ep_protocol = 6, ep_storage = \<lparr>buf_data = sockaddr_in 5000 (replicate 4 NUL)\<rparr>\<rparr>"
  have "to_string 5000 = ''5000''"
    by (simp add: to_string.simps digit_char_def)
  then show ?thesis
    using port_prints_port [of 5000 ?e "replicate 4 NUL"] by simp
qed

text \<open>\<open>addr\<close> of an IPv4 endpoint is not the text of the address but that text padded with
  NUL characters to exactly 16 characters; the text is what is left when it is read as a C
  string. This rests on the documented behaviour of \<open>inet_ntop\<close>.\<close>

lemma addr_in_padded:
  assumes "inet_ntop_contract E" and "ep_data e = sockaddr_in p a"
    and "inet_ntop E AF_INET (a @ replicate 8 NUL) INET6_ADDRSTRLEN = Some s"
  shows "addr E e = Inr (s @ replicate (INET_ADDRSTRLEN - length s) NUL)
     \<and> c_str (s @ replicate (INET_ADDRSTRLEN - length s) NUL) = s
     \<and> s @ replicate (INET_ADDRSTRLEN - length s) NUL \<noteq> s"
proof -
  have s: "length s < INET_ADDRSTRLEN" "NUL \<notin> set s"
    using assms(1,3) unfolding inet_ntop_contract_def by blast+
  let ?b = "overwrite (replicate 46 NUL) (s @ [NUL])"
  have b: "?b = s @ replicate (46 - length s) NUL"
    using s(1) by (simp add: overwrite_def replicate_Suc [symmetric] Suc_diff_Suc del: replicate_Suc)
  have "take 16 ?b = s @ replicate (16 - length s) NUL"
    unfolding b using s(1) by simp
  moreover have "addr E e = Inr (take 16 ?b)"
    using assms(2,3) by (simp add: addr_def Let_def buffer_sized_def vector_resize_def buffer_size_def)
  moreover have "c_str (s @ replicate (16 - length s) NUL) = s"
    using s by (auto simp: c_str_def takeWhile_append takeWhile_replicate)
  ultimately show ?thesis using s(1) by simp
qed

text \<open>\<open>addr\<close> of an IPv6 endpoint formats the first four bytes of the IPv6 address as if they
  were an IPv4 address, so two IPv6 addresses that agree on those four bytes print the same,
  however their other twelve bytes differ.\<close>

lemma addr_in6_confuses:
  assumes "inet_ntop_contract E"
    and "ep_data e = sockaddr_in6 p (a4 @ a)" and "ep_data e' = sockaddr_in6 p' (a4 @ a')"
    and "length a4 = 4"
  shows "addr E e = addr E e'"
proof -
  have "inet_ntop E AF_INET (a4 @ a @ r) n = inet_ntop E AF_INET (a4 @ a' @ r) n" for r n
    using assms(1,4) unfolding inet_ntop_contract_def by auto
  then show ?thesis
    using assms(2,3) by (simp add: addr_def Let_def)
qed

text \<open>\<open>operator==\<close> of endpoints compares as many bytes as the left operand has: if the right
  operand has at least that many, it says whether the left bytes are a prefix of the right
  ones, whatever the protocols; if it has fewer, the comparison reads out of bounds.\<close>

lemma ep_eq_prefix:
  assumes "length (ep_data e) < 2 ^ 32"
  shows "ep_eq e other =
     (if length (ep_data e) \<le> length (ep_data other)
      then Inr (ep_data e = take (length (ep_data e)) (ep_data other)) else Inl Out_of_bounds)"
  using assms by (simp add: ep_eq_def ep_size_data memcmp_def memcmp_bytes_eq_0)

end
