(* ===== verification/Resolve.thy ===== *)
theory Resolve
  imports Endpoints
begin

text \<open>
  \<open>src/detail/getaddrinfo.cpp\<close>, \<open>src/resolve.cpp\<close>, \<open>include/yonaa/addresses.hpp\<close>: name
  resolution. The list the resolver returns is walked node by node; each node becomes an
  endpoint, and the list is given back with \<open>freeaddrinfo\<close>.
\<close>

unbundle bit_operations_syntax

section \<open>Model\<close>

definition any_address :: string where
  "any_address = ''0.0.0.0''"

definition loopback_address :: string where
  "loopback_address = ''127.0.0.1''"

definition gai_hints_for :: "bool \<Rightarrow> gai_hints" where
  "gai_hints_for use_inaddr_any =
     \<lparr>h_family = AF_UNSPEC, h_socktype = SOCK_STREAM,
      h_flags = AI_ADDRCONFIG OR (if use_inaddr_any then AI_PASSIVE else 0)\<rparr>"

definition getaddrinfo :: "'w env \<Rightarrow> string \<Rightarrow> string \<Rightarrow> 'w \<Rightarrow> addrinfo option \<times> 'w" where
  "getaddrinfo E hostname service w =
     (let use_inaddr_any = (hostname = any_address);
          gai_name = (if use_inaddr_any then None else Some (c_str hostname))
      in case sys_getaddrinfo E gai_name (c_str service) (gai_hints_for use_inaddr_any) w of
           ((gai_result, target_info), w') \<Rightarrow>
             if gai_result \<noteq> 0 then (None, w') else (target_info, w'))"

text \<open>The walk along the list ends: a node is larger than the rest of the list behind it.\<close>

lemma ai_next_smaller [termination_simp]: "size_option size (ai_next ai) < Suc (size ai)"
  by (cases ai) simp

fun pack :: "addrinfo option \<Rightarrow> endpoint list result" where
  "pack None = Inr []"
| "pack (Some ai) =
     rbind (from_native_address (ai_protocol ai) (ai_addr ai) (ai_addrlen ai)) (\<lambda>e.
     rbind (pack (ai_next ai)) (\<lambda>es. Inr (e # es)))"

definition resolve_ec ::
  "'w env \<Rightarrow> string \<Rightarrow> string \<Rightarrow> error_code \<Rightarrow> 'w \<Rightarrow> (endpoint list \<times> error_code \<times> 'w) result" where
  "resolve_ec E hostname service ec w =
     (case getaddrinfo E hostname service w of
        (None, w') \<Rightarrow> Inr ([], 3, w')
      | (Some target_info, w') \<Rightarrow>
          rbind (pack (Some target_info)) (\<lambda>es. Inr (es, ec, sys_freeaddrinfo E target_info w')))"

definition resolve ::
  "'w env \<Rightarrow> string \<Rightarrow> string \<Rightarrow> 'w \<Rightarrow> ((error_code + endpoint list) \<times> 'w) result" where
  "resolve E hostname service w =
     rbind (resolve_ec E hostname service no_error w) (\<lambda>r. Inr (throw_if_set r))"

text \<open>The nodes of a resolver list, and the condition that every node's address is as long as
  its length field says.\<close>

fun nodes :: "addrinfo option \<Rightarrow> addrinfo list" where
  "nodes None = []"
| "nodes (Some ai) = ai # nodes (ai_next ai)"

definition wf_nodes :: "addrinfo option \<Rightarrow> bool" where
  "wf_nodes ai \<longleftrightarrow> list_all (\<lambda>n. ai_addrlen n \<le> length (ai_addr n)) (nodes ai)"

definition node_endpoint :: "addrinfo \<Rightarrow> endpoint" where
  "node_endpoint n =
     \<lparr>ep_protocol = ai_protocol n, ep_storage = \<lparr>buf_data = take (ai_addrlen n) (ai_addr n)\<rparr>\<rparr>"

section \<open>Lemmas\<close>

lemma pack_wf: "wf_nodes ai \<Longrightarrow> pack ai = Inr (map node_endpoint (nodes ai))"
  by (induction ai rule: pack.induct)
    (auto simp: wf_nodes_def from_native_address_simps node_endpoint_def)

lemma pack_not_wf: "\<not> wf_nodes ai \<Longrightarrow> pack ai = Inl Out_of_bounds"
  by (induction ai rule: pack.induct)
    (auto simp: wf_nodes_def from_native_address_simps)

interpretation resolve_pair: overload_pair
  "\<lambda>(hostname, service, w) ec. Some (resolve_ec E hostname service ec w)"
  "\<lambda>(hostname, service, w). Some (resolve E hostname service w)"
  for E :: "'w env"
  by unfold_locales (auto simp: resolve_def rbind_def split: sum.splits)

section \<open>Properties\<close>

text \<open>C26: when the resolver answers with a list whose nodes are well formed, \<open>resolve\<close> returns
  one endpoint per node in list order, with the node's bytes and protocol, leaves the error
  code alone, and makes exactly two calls: one resolver call, and one \<open>freeaddrinfo\<close> of the
  list it was given.\<close>

theorem resolve_packs_and_frees:
  assumes "sys_getaddrinfo E (if hostname = any_address then None else Some (c_str hostname))
             (c_str service) (gai_hints_for (hostname = any_address)) w = ((0, Some ai), w')"
    and "wf_nodes (Some ai)"
  shows "resolve_ec (traced E) hostname service ec (w, t) =
     Inr (map node_endpoint (nodes (Some ai)), ec,
          (sys_freeaddrinfo E ai w',
           t @ [Ev_getaddrinfo (if hostname = any_address then None else Some (c_str hostname))
                  (c_str service) (gai_hints_for (hostname = any_address)) 0, Ev_freeaddrinfo ai]))"
  using assms pack_wf [OF assms(2)]
  by (simp add: resolve_ec_def getaddrinfo_def Let_def traced_simps split: if_splits)

theorem resolve_packs_and_frees_witness:
  "resolve_ec sim any_address ''5000'' 0 k0 =
     Inr (replicate 2 \<lparr>ep_protocol = 6, ep_storage = \<lparr>buf_data = sim_addr\<rparr>\<rparr>, 0, k0) \<and>
   (\<exists>t. resolve_ec (traced sim) any_address ''5000'' 0 (k0, []) =
     Inr (replicate 2 \<lparr>ep_protocol = 6, ep_storage = \<lparr>buf_data = sim_addr\<rparr>\<rparr>, 0, (k0, t)) \<and> length t = 2)"
proof -
  let ?ai = "Addrinfo 6 sim_addr 16 (Some (Addrinfo 6 sim_addr 16 None))"
  have call: "sys_getaddrinfo sim (if any_address = any_address then None else Some (c_str any_address))
      (c_str ''5000'') (gai_hints_for (any_address = any_address)) k0 = ((0, Some ?ai), k0)"
    by (simp add: sim_def c_str_def)
  have wf: "wf_nodes (Some ?ai)"
    by (simp add: wf_nodes_def sim_addr_def)
  have "map node_endpoint (nodes (Some ?ai)) = replicate 2 \<lparr>ep_protocol = 6, ep_storage = \<lparr>buf_data = sim_addr\<rparr>\<rparr>"
    by (simp add: node_endpoint_def sim_addr_def numeral_2_eq_2)
  with resolve_packs_and_frees [OF call wf, of 0 "[]"]
  show ?thesis
    using call pack_wf [OF wf]
    by (simp add: resolve_ec_def getaddrinfo_def sim_def)
qed

text \<open>When the resolver fails, \<open>resolve\<close> reports error 3 with no endpoints, and the throwing
  overload throws exactly that code; it never returns endpoints without the resolver having
  answered.\<close>

lemma resolve_failure:
  assumes "sys_getaddrinfo E (if hostname = any_address then None else Some (c_str hostname))
             (c_str service) (gai_hints_for (hostname = any_address)) w = ((r, info), w')"
    and "r \<noteq> 0"
  shows "resolve_ec E hostname service ec w = Inr ([], 3, w') \<and>
         resolve E hostname service w = Inr (Inl 3, w')"
proof -
  have rep: "resolve_ec E hostname service ec w = Inr ([], 3, w')" for ec
    using assms by (simp add: resolve_ec_def getaddrinfo_def Let_def split: if_splits)
  then have "Some (resolve E hostname service w) = Some (Inr (Inl 3, w'))"
    using resolve_pair.throws_iff [of E "(hostname, service, w)" 3 w'] by (auto simp: ec_bool_def)
  with rep show ?thesis by simp
qed

end
