(* ===== verification/Socket_Ops.thy ===== *)
theory Socket_Ops
  imports Resolve
begin

text \<open>
  \<open>src/detail/socket_ops.cpp\<close>: creating, querying and closing sockets. The two creating
  functions walk the resolved endpoints and return the first socket that passes every step,
  or 0. The body of each loop is a definition of its own (\<open>try_connect\<close>, \<open>try_listen\<close>); a
  \<open>continue\<close> of the source is the result \<open>None\<close>. Both loops are instances of the locale
  \<open>first_success\<close>.
\<close>

section \<open>Model\<close>

definition get_endpoint :: "'w env \<Rightarrow> socket_type \<Rightarrow> bool \<Rightarrow> 'w \<Rightarrow> (endpoint \<times> 'w) result" where
  "get_endpoint E socket_fd local_socket w =
     (case (if local_socket then sys_getsockname E socket_fd w else sys_getpeername E socket_fd w) of
        ((getname_result, ss, ss_size), w1) \<Rightarrow>
          (case sys_getsockopt E socket_fd SOL_SOCKET SO_PROTOCOL 0 w1 of
             ((gso_result, prot), w2) \<Rightarrow>
               rbind (from_native_address prot ss ss_size) (\<lambda>e. Inr (e, w2))))"

definition try_connect :: "'w env \<Rightarrow> endpoint \<Rightarrow> 'w \<Rightarrow> (socket_type option \<times> 'w) result" where
  "try_connect E e w =
     rbind (family e) (\<lambda>fam.
       case sys_socket E fam SOCK_STREAM (protocol e) w of
         (socket_fd, w1) \<Rightarrow>
           if socket_fd = -1 then Inr (None, w1)
           else (case sys_connect E socket_fd (ep_data e) (ep_size e) w1 of
                   (connect_result, w2) \<Rightarrow>
                     if connect_result = -1 then Inr (None, w2) else Inr (Some socket_fd, w2)))"

fun create_connected_socket :: "'w env \<Rightarrow> endpoint list \<Rightarrow> 'w \<Rightarrow> (socket_type \<times> 'w) result" where
  "create_connected_socket E [] w = Inr (0, w)"
| "create_connected_socket E (e # es) w =
     rbind (try_connect E e w) (\<lambda>(r, w1).
       case r of None \<Rightarrow> create_connected_socket E es w1 | Some socket_fd \<Rightarrow> Inr (socket_fd, w1))"

definition try_listen ::
  "'w env \<Rightarrow> nat \<Rightarrow> bool \<Rightarrow> endpoint \<Rightarrow> 'w \<Rightarrow> (socket_type option \<times> 'w) result" where
  "try_listen E backlog_size reuse_addr e w =
     rbind (family e) (\<lambda>fam.
       case sys_socket E fam SOCK_STREAM (protocol e) w of
         (socket_fd, w1) \<Rightarrow>
           if socket_fd = -1 then Inr (None, w1)
           else (case (if reuse_addr then sys_setsockopt E socket_fd SOL_SOCKET SO_REUSEADDR 1 w1
                       else (0, w1)) of
                   (sso_result, w2) \<Rightarrow>
                     if reuse_addr \<and> sso_result = -1 then Inr (None, w2)
                     else (case sys_bind E socket_fd (ep_data e) (ep_size e) w2 of
                             (bind_result, w3) \<Rightarrow>
                               if bind_result = -1 then Inr (None, w3)
                               else (case sys_listen E socket_fd (int_of_ssize (int backlog_size)) w3 of
                                       (listen_result, w4) \<Rightarrow>
                                         if listen_result = -1 then Inr (None, w4)
                                         else Inr (Some socket_fd, w4)))))"

fun create_listening_socket ::
  "'w env \<Rightarrow> endpoint list \<Rightarrow> nat \<Rightarrow> bool \<Rightarrow> 'w \<Rightarrow> (socket_type \<times> 'w) result" where
  "create_listening_socket E [] backlog_size reuse_addr w = Inr (0, w)"
| "create_listening_socket E (e # es) backlog_size reuse_addr w =
     rbind (try_listen E backlog_size reuse_addr e w) (\<lambda>(r, w1).
       case r of None \<Rightarrow> create_listening_socket E es backlog_size reuse_addr w1
               | Some socket_fd \<Rightarrow> Inr (socket_fd, w1))"

definition get_local_endpoint :: "'w env \<Rightarrow> socket_type \<Rightarrow> 'w \<Rightarrow> (endpoint \<times> 'w) result" where
  "get_local_endpoint E socket_fd w = get_endpoint E socket_fd True w"

definition get_remote_endpoint :: "'w env \<Rightarrow> socket_type \<Rightarrow> 'w \<Rightarrow> (endpoint \<times> 'w) result" where
  "get_remote_endpoint E socket_fd w = get_endpoint E socket_fd False w"

definition close_socket :: "'w env \<Rightarrow> socket_type \<Rightarrow> 'w \<Rightarrow> 'w" where
  "close_socket E socket_fd w =
     (case sys_shutdown E socket_fd SHUT_RDWR w of (_, w1) \<Rightarrow> snd (sys_close E socket_fd w1))"

text \<open>The world after every attempt on a list of endpoints has failed, \<open>None\<close> if one does not.\<close>

fun all_fail :: "('e \<Rightarrow> 'w \<Rightarrow> ('a option \<times> 'w) result) \<Rightarrow> 'e list \<Rightarrow> 'w \<Rightarrow> 'w option" where
  "all_fail att [] w = Some w"
| "all_fail att (e # es) w =
     (case att e w of Inr (None, w1) \<Rightarrow> all_fail att es w1 | _ \<Rightarrow> None)"

section \<open>The interface of the endpoint loops\<close>

locale first_success =
  fixes attempt :: "'e \<Rightarrow> 'w \<Rightarrow> (socket_type option \<times> 'w) result"
    and loop :: "'e list \<Rightarrow> 'w \<Rightarrow> (socket_type \<times> 'w) result"
  assumes loop_Nil: "loop [] w = Inr (0, w)"
    and loop_Cons: "loop (e # es) w = rbind (attempt e w) (\<lambda>(r, w1).
          case r of None \<Rightarrow> loop es w1 | Some fd \<Rightarrow> Inr (fd, w1))"
begin

lemma loop_succeeds:
  "all_fail attempt pre w = Some w1 \<Longrightarrow> attempt e w1 = Inr (Some fd, w') \<Longrightarrow>
     loop (pre @ e # post) w = Inr (fd, w')"
  by (induction pre arbitrary: w) (auto simp: loop_Cons split: sum.splits option.splits)

lemma loop_exhausted: "all_fail attempt es w = Some w' \<Longrightarrow> loop es w = Inr (0, w')"
  by (induction es arbitrary: w) (auto simp: loop_Nil loop_Cons split: sum.splits option.splits)

lemma loop_cases:
  "loop es w = Inr (fd, w') \<Longrightarrow>
     (fd = 0 \<and> all_fail attempt es w = Some w') \<or>
     (\<exists>pre e post w1. es = pre @ e # post \<and> all_fail attempt pre w = Some w1
        \<and> attempt e w1 = Inr (Some fd, w'))"
proof (induction es arbitrary: w)
  case Nil
  then show ?case by (simp add: loop_Nil)
next
  case (Cons e es)
  then obtain r w1 where a: "attempt e w = Inr (r, w1)"
    and k: "(case r of None \<Rightarrow> loop es w1 | Some fd \<Rightarrow> Inr (fd, w1)) = Inr (fd, w')"
    by (auto simp: loop_Cons bind_simps)
  show ?case
  proof (cases r)
    case None
    with k have "loop es w1 = Inr (fd, w')" by simp
    then consider "fd = 0" "all_fail attempt es w1 = Some w'"
      | pre d post w2 where "es = pre @ d # post" "all_fail attempt pre w1 = Some w2"
          "attempt d w2 = Inr (Some fd, w')"
      using Cons.IH by blast
    then show ?thesis
    proof cases
      case 1
      with a None show ?thesis by simp
    next
      case 2
      with a None have "e # es = (e # pre) @ d # post" "all_fail attempt (e # pre) w = Some w2"
        by simp_all
      with 2 show ?thesis by blast
    qed
  next
    case (Some fd')
    with a k have "e # es = [] @ e # es" "all_fail attempt [] w = Some w"
      "attempt e w = Inr (Some fd, w')" by simp_all
    then show ?thesis by blast
  qed
qed

lemma loop_iff:
  "loop es w = Inr (fd, w') \<longleftrightarrow>
     (fd = 0 \<and> all_fail attempt es w = Some w') \<or>
     (\<exists>pre e post w1. es = pre @ e # post \<and> all_fail attempt pre w = Some w1
        \<and> attempt e w1 = Inr (Some fd, w'))"
  using loop_cases loop_succeeds loop_exhausted by blast

end

interpretation conn_loop: first_success "try_connect E" "create_connected_socket E"
  for E :: "'w env"
  by unfold_locales simp_all

interpretation listen_loop: first_success
  "try_listen E backlog_size reuse_addr" "\<lambda>es. create_listening_socket E es backlog_size reuse_addr"
  for E :: "'w env" and backlog_size reuse_addr
  by unfold_locales simp_all

section \<open>Lemmas\<close>

lemma close_socket_traced:
  "\<exists>w'. close_socket (traced E) fd (w, t) = (w', t @ [Ev_shutdown fd SHUT_RDWR, Ev_close fd])"
  by (auto simp: close_socket_def traced_simps split: prod.splits)

lemma get_endpoint_traced:
  "get_endpoint (traced E) fd b (w, t) = Inr (e, (w', t')) \<Longrightarrow>
     get_endpoint E fd b w = Inr (e, w') \<and>
     t' = t @ [if b then Ev_getsockname fd else Ev_getpeername fd, Ev_getsockopt fd SOL_SOCKET SO_PROTOCOL]"
  by (cases b) (auto simp: get_endpoint_def traced_simps bind_simps split: prod.splits)

lemma try_connect_traced:
  assumes "try_connect (traced E) e (w, t) = Inr (r, (w', t'))"
  shows "\<exists>u. t' = t @ u \<and> closed u = [] \<and>
    (case r of Some fd \<Rightarrow> fd \<noteq> -1 \<and> opened u = [fd] | None \<Rightarrow> True)"
  using assms by (auto simp: try_connect_def traced_simps bind_simps split: prod.splits if_splits)

text \<open>A property of what every failed attempt adds to the trace, closed under appending, holds of
  what a run of failed attempts adds.\<close>

lemma all_fail_trace:
  assumes step: "\<And>e w t w' t'. att e (w, t) = Inr (None, (w', t')) \<Longrightarrow> \<exists>u. t' = t @ u \<and> Q u"
    and nil: "Q []" and app: "\<And>u v. Q u \<Longrightarrow> Q v \<Longrightarrow> Q (u @ v)"
  shows "all_fail att es (w, t) = Some (w', t') \<Longrightarrow> \<exists>u. t' = t @ u \<and> Q u"
proof (induction es arbitrary: w t)
  case Nil
  with nil show ?case by simp
next
  case (Cons e es)
  then obtain w1 t1 where a: "att e (w, t) = Inr (None, (w1, t1))"
    and f: "all_fail att es (w1, t1) = Some (w', t')"
    by (auto split: sum.splits option.splits prod.splits)
  from step [OF a] Cons.IH [OF f] show ?case
    by (metis app append.assoc)
qed

lemma all_fail_connect_traced:
  assumes "all_fail (try_connect (traced E)) es (w, t) = Some (w', t')"
  shows "\<exists>u. t' = t @ u \<and> closed u = []"
  by (rule all_fail_trace [OF _ _ _ assms]) (auto dest: try_connect_traced)

lemma try_listen_traced:
  assumes "try_listen (traced E) n reuse e (w, t) = Inr (r, (w', t'))"
  shows "\<exists>u. t' = t @ u \<and> closed u = []"
  using assms
  by (auto simp: try_listen_def traced_simps bind_simps split: prod.splits if_splits)

lemma try_listen_success_traced:
  assumes "try_listen (traced E) n reuse e (w, t) = Inr (Some fd, (w', t'))"
  shows "\<exists>fam r1 r2 r3. family e = Inr fam \<and> r1 \<noteq> -1 \<and> r2 \<noteq> -1 \<and> r3 \<noteq> -1 \<and>
    t' = t @ [Ev_socket fam SOCK_STREAM (protocol e) fd]
           @ (if reuse then [Ev_setsockopt fd SOL_SOCKET SO_REUSEADDR 1 r1] else [])
           @ [Ev_bind fd r2, Ev_listen fd (int_of_ssize (int n)) r3]"
  using assms
  by (auto simp: try_listen_def traced_simps bind_simps split: prod.splits if_splits)
    (metis zero_neq_neg_one)?

lemma all_fail_listen_traced:
  assumes "all_fail (try_listen (traced E) n reuse) es (w, t) = Some (w', t')"
  shows "\<exists>u. t' = t @ u \<and> closed u = []"
  by (rule all_fail_trace [OF _ _ _ assms]) (auto dest: try_listen_traced)

lemma create_connected_socket_traced:
  assumes "create_connected_socket (traced E) es (w, t) = Inr (fd, (w', t'))"
  shows "\<exists>u. t' = t @ u \<and> closed u = [] \<and> (fd \<noteq> 0 \<longrightarrow> opened u \<noteq> [] \<and> last (opened u) = fd)"
proof -
  consider "fd = 0" "all_fail (try_connect (traced E)) es (w, t) = Some (w', t')"
    | pre e w1 t1 where "all_fail (try_connect (traced E)) pre (w, t) = Some (w1, t1)"
        "try_connect (traced E) e (w1, t1) = Inr (Some fd, (w', t'))"
    using conn_loop.loop_cases [OF assms] by (metis surj_pair)
  then show ?thesis
  proof cases
    case 1
    then show ?thesis using all_fail_connect_traced [OF 1(2)] by auto
  next
    case 2
    obtain u where u: "t1 = t @ u" "closed u = []"
      using all_fail_connect_traced [OF 2(1)] by blast
    obtain v where v: "t' = t1 @ v" "closed v = []" "opened v = [fd]"
      using try_connect_traced [OF 2(2)] by auto
    have "t' = t @ (u @ v)" "closed (u @ v) = []" "opened (u @ v) \<noteq> []" "last (opened (u @ v)) = fd"
      using u v by simp_all
    then show ?thesis by blast
  qed
qed

lemma listen_sequence:
  assumes "create_listening_socket (traced E) es n reuse (w, t) = Inr (fd, (w', t'))" and "fd \<noteq> 0"
  shows "\<exists>e u fam r1 r2 r3. e \<in> set es \<and> family e = Inr fam \<and> r1 \<noteq> -1 \<and> r2 \<noteq> -1 \<and> r3 \<noteq> -1 \<and>
    closed u = [] \<and>
    t' = t @ u @ [Ev_socket fam SOCK_STREAM (protocol e) fd]
           @ (if reuse then [Ev_setsockopt fd SOL_SOCKET SO_REUSEADDR 1 r1] else [])
           @ [Ev_bind fd r2, Ev_listen fd (int_of_ssize (int n)) r3]"
proof -
  obtain pre e post w1 t1 where es: "es = pre @ e # post"
    and pre: "all_fail (try_listen (traced E) n reuse) pre (w, t) = Some (w1, t1)"
    and ok: "try_listen (traced E) n reuse e (w1, t1) = Inr (Some fd, (w', t'))"
    using listen_loop.loop_cases [OF assms(1)] assms(2) by (metis surj_pair)
  obtain u where u: "t1 = t @ u" "closed u = []"
    using all_fail_listen_traced [OF pre] by blast
  from try_listen_success_traced [OF ok] u show ?thesis
    unfolding es by (metis append.assoc in_set_conv_decomp)
qed

section \<open>Properties\<close>


text \<open>\<open>create_connected_socket\<close> never closes a descriptor: the one it returns is the last it
  opened, and every descriptor it opened before, on an endpoint that then refused the
  connection, is still open when it returns.\<close>

lemma create_connected_socket_leaks:
  assumes "create_connected_socket (traced E) es (w, t) = Inr (fd, (w', t'))"
  shows "\<exists>u. t' = t @ u \<and> closed u = [] \<and> (fd \<noteq> 0 \<longrightarrow> opened u \<noteq> [] \<and> last (opened u) = fd)"
  using assms by (rule create_connected_socket_traced)

text \<open>C25: \<open>create_listening_socket\<close>, when it returns a socket, has made on it, in this order and
  all successfully, the calls \<open>socket\<close> with an endpoint's family and protocol, \<open>SO_REUSEADDR\<close> if
  and only if address reuse was asked for, \<open>bind\<close>, and \<open>listen\<close> with the backlog; no other
  call follows, and no descriptor was closed on the way.\<close>

theorem create_listening_socket_sequence:
  assumes "create_listening_socket (traced E) es n reuse (w, t) = Inr (fd, (w', t'))" and "fd \<noteq> 0"
  shows "\<exists>e u fam r1 r2 r3. e \<in> set es \<and> family e = Inr fam \<and> r1 \<noteq> -1 \<and> r2 \<noteq> -1 \<and> r3 \<noteq> -1 \<and>
    closed u = [] \<and>
    t' = t @ u @ [Ev_socket fam SOCK_STREAM (protocol e) fd]
           @ (if reuse then [Ev_setsockopt fd SOL_SOCKET SO_REUSEADDR 1 r1] else [])
           @ [Ev_bind fd r2, Ev_listen fd (int_of_ssize (int n)) r3]"
  using assms by (rule listen_sequence)

theorem create_listening_socket_sequence_witness:
  "\<exists>e t. create_listening_socket (traced sim) [e] 128 True (k0, []) =
     Inr (3, (k0\<lparr>k_next := 4, k_open := [3], k_listening := [3]\<rparr>, t)) \<and> last t = Ev_listen 3 128 0"
proof -
  let ?e = "node_endpoint (Addrinfo 6 sim_addr 16 None)"
  let ?t = "[Ev_socket 2 1 6 3, Ev_setsockopt 3 1 2 1 0, Ev_bind 3 0, Ev_listen 3 128 0]"
  have run: "create_listening_socket (traced sim) [?e] 128 True (k0, []) =
      Inr (3, (k0\<lparr>k_next := 4, k_open := [3], k_listening := [3]\<rparr>, ?t))"
    by (simp add: try_listen_def traced_simps sim_calls k0_def family_def node_endpoint_def sim_addr_def
        sa_family_def byte_at_def protocol_def int_of_ssize_def)
  from create_listening_socket_sequence [OF this] have "\<exists>r. last ?t = Ev_listen 3 128 r"
    by (auto simp: int_of_ssize_def)
  with run show ?thesis by (intro exI [of _ ?e] exI [of _ ?t]) simp
qed

end
