(* ===== verification/Poll.thy ===== *)
theory Poll
  imports Yonaa_Env
begin

text \<open>
  \<open>src/detail/poll.cpp\<close> and \<open>include/yonaa/detail/poll.hpp\<close>: the status of one socket and of a
  group of sockets. A \<open>socket_status_mask\<close> is the value of its bits; its operators are those
  of the \<open>bitmask\<close> package, taken from the environment. The \<open>short\<close> fields of \<open>pollfd\<close> are
  16-bit words, converted to and from \<open>int\<close> where the sources do.

  The locale \<open>fd_registry\<close> is the interface the server relies on: what registering and
  unregistering a descriptor does to the list of registered descriptors.
\<close>

unbundle bit_operations_syntax

section \<open>Model\<close>

datatype socket_status = ss_none | ss_error | ss_hung_up | ss_readable | ss_writable

fun ss_bits :: "socket_status \<Rightarrow> mask" where
  "ss_bits ss_none = 0x00"
| "ss_bits ss_error = 0x01"
| "ss_bits ss_hung_up = 0x02"
| "ss_bits ss_readable = 0x04"
| "ss_bits ss_writable = 0x08"

definition ssm_from_revents :: "'w env \<Rightarrow> 32 word \<Rightarrow> mask" where
  "ssm_from_revents E revents =
     (let ssm = 0;
          ssm = bm_or E ssm (ss_bits (if revents AND POLLIN \<noteq> 0 then ss_readable else ss_none));
          ssm = bm_or E ssm (ss_bits (if revents AND POLLOUT \<noteq> 0 then ss_writable else ss_none));
          ssm = bm_or E ssm (ss_bits (if revents AND POLLERR \<noteq> 0 then ss_error else ss_none));
          ssm = bm_or E ssm (ss_bits (if revents AND POLLHUP \<noteq> 0 then ss_hung_up else ss_none))
      in ssm)"

definition poll_socket :: "'w env \<Rightarrow> socket_type \<Rightarrow> int \<Rightarrow> 'w \<Rightarrow> mask \<times> 'w" where
  "poll_socket E socket_fd timeout_millis w =
     (let pfd = \<lparr>pfd_fd = socket_fd, pfd_events = ucast (POLLIN OR POLLOUT), pfd_revents = 0\<rparr>
      in case sys_poll E [pfd] timeout_millis w of
           ((num_events, revents), w') \<Rightarrow>
             (if num_events > 0 then ssm_from_revents E (scast (revents 0)) else ss_bits ss_none, w'))"

record socket_status_info =
  si_fd :: socket_type
  si_status :: mask

record poll_group =
  pg_pfds :: "pollfd list"
  pg_config :: "32 word"

definition poll_group_new :: "'w env \<Rightarrow> mask \<Rightarrow> poll_group" where
  "poll_group_new E config =
     (let cfg = 0;
          cfg = cfg OR (if bm_and E config (ss_bits ss_readable) \<noteq> 0 then POLLIN else 0);
          cfg = cfg OR (if bm_and E config (ss_bits ss_writable) \<noteq> 0 then POLLOUT else 0)
      in \<lparr>pg_pfds = [], pg_config = cfg\<rparr>)"

definition add_socket :: "poll_group \<Rightarrow> socket_type \<Rightarrow> poll_group" where
  "add_socket g socket_fd =
     g\<lparr>pg_pfds := pg_pfds g @ [\<lparr>pfd_fd = socket_fd, pfd_events = ucast (pg_config g), pfd_revents = 0\<rparr>]\<rparr>"

definition remove_socket :: "poll_group \<Rightarrow> socket_type \<Rightarrow> poll_group" where
  "remove_socket g socket_fd = g\<lparr>pg_pfds := filter (\<lambda>pfd. \<not> pfd_fd pfd = socket_fd) (pg_pfds g)\<rparr>"

definition write_revents :: "(nat \<Rightarrow> 16 word) \<Rightarrow> pollfd list \<Rightarrow> pollfd list" where
  "write_revents revents pfds = map (\<lambda>(i, pfd). pfd\<lparr>pfd_revents := revents i\<rparr>) (enumerate 0 pfds)"

fun collect_events :: "'w env \<Rightarrow> pollfd list \<Rightarrow> socket_status_info list" where
  "collect_events E [] = []"
| "collect_events E (pfd # pfds) =
     (if pfd_revents pfd = 0 then collect_events E pfds
      else \<lparr>si_fd = pfd_fd pfd, si_status = ssm_from_revents E (scast (pfd_revents pfd))\<rparr>
           # collect_events E pfds)"

definition pg_poll ::
  "'w env \<Rightarrow> poll_group \<Rightarrow> int \<Rightarrow> 'w \<Rightarrow> socket_status_info list \<times> poll_group \<times> 'w" where
  "pg_poll E g timeout_millis w =
     (case sys_poll E (pg_pfds g) timeout_millis w of
        ((n, revents), w') \<Rightarrow>
          (let g' = g\<lparr>pg_pfds := write_revents revents (pg_pfds g)\<rparr>
           in (collect_events E (pg_pfds g'), g', w')))"

definition pg_size :: "poll_group \<Rightarrow> nat" where
  "pg_size g = length (pg_pfds g)"

definition pg_fds :: "poll_group \<Rightarrow> socket_type list" where
  "pg_fds g = map pfd_fd (pg_pfds g)"

text \<open>The calls a client of a poll group can make, and a sequence of them.\<close>

datatype pg_call = Pg_add socket_type | Pg_remove socket_type | Pg_poll int

fun pg_run :: "'w env \<Rightarrow> pg_call list \<Rightarrow> poll_group \<times> 'w \<Rightarrow> poll_group \<times> 'w" where
  "pg_run E [] s = s"
| "pg_run E (Pg_add fd # cs) (g, w) = pg_run E cs (add_socket g fd, w)"
| "pg_run E (Pg_remove fd # cs) (g, w) = pg_run E cs (remove_socket g fd, w)"
| "pg_run E (Pg_poll tm # cs) (g, w) = pg_run E cs (snd (pg_poll E g tm w))"

text \<open>What the registered descriptors are after such a sequence, as a list specification.\<close>

fun pg_spec :: "pg_call list \<Rightarrow> socket_type list \<Rightarrow> socket_type list" where
  "pg_spec [] xs = xs"
| "pg_spec (Pg_add fd # cs) xs = pg_spec cs (xs @ [fd])"
| "pg_spec (Pg_remove fd # cs) xs = pg_spec cs (filter (\<lambda>x. x \<noteq> fd) xs)"
| "pg_spec (Pg_poll tm # cs) xs = pg_spec cs xs"

definition pg_wf :: "poll_group \<Rightarrow> bool" where
  "pg_wf g \<longleftrightarrow> list_all (\<lambda>p. pfd_events p = ucast (pg_config g)) (pg_pfds g)"

text \<open>The \<open>poll\<close> bit that reports a status.\<close>

fun poll_bit :: "socket_status \<Rightarrow> 32 word" where
  "poll_bit ss_none = 0"
| "poll_bit ss_error = POLLERR"
| "poll_bit ss_hung_up = POLLHUP"
| "poll_bit ss_readable = POLLIN"
| "poll_bit ss_writable = POLLOUT"

section \<open>The interface of a descriptor registry\<close>

locale fd_registry =
  fixes fds :: "'g \<Rightarrow> socket_type list"
    and add :: "'g \<Rightarrow> socket_type \<Rightarrow> 'g"
    and remove :: "'g \<Rightarrow> socket_type \<Rightarrow> 'g"
    and count :: "'g \<Rightarrow> nat"
  assumes fds_add [simp]: "fds (add g fd) = fds g @ [fd]"
    and fds_remove [simp]: "fds (remove g fd) = filter (\<lambda>x. x \<noteq> fd) (fds g)"
    and count_eq [simp]: "count g = length (fds g)"
begin

lemma fds_remove_all:
  "fds (foldl remove g xs) = filter (\<lambda>x. x \<notin> set xs) (fds g)"
  by (induction xs arbitrary: g) (auto intro: filter_cong)

lemma distinct_add: "distinct (fds g) \<Longrightarrow> fd \<notin> set (fds g) \<Longrightarrow> distinct (fds (add g fd))"
  by simp

lemma distinct_remove: "distinct (fds g) \<Longrightarrow> distinct (fds (remove g fd))"
  by simp

lemma add_remove: "fd \<notin> set (fds g) \<Longrightarrow> fds (remove (add g fd) fd) = fds g"
  by (auto simp: filter_id_conv)

lemma count_remove:
  "distinct (fds g) \<Longrightarrow> count (remove g fd) = (if fd \<in> set (fds g) then count g - 1 else count g)"
  by (simp add: length_filter_neq)

end

section \<open>Lemmas\<close>

lemma map_fd_write_revents [simp]: "map pfd_fd (write_revents f ps) = map pfd_fd ps"
  by (simp add: write_revents_def case_prod_unfold comp_def flip: map_map [of pfd_fd snd, unfolded comp_def])

lemma length_write_revents [simp]: "length (write_revents f ps) = length ps"
  by (simp add: write_revents_def)

lemma nth_write_revents:
  "i < length ps \<Longrightarrow> write_revents f ps ! i = (ps ! i)\<lparr>pfd_revents := f i\<rparr>"
  by (simp add: write_revents_def nth_enumerate_eq)

lemma collect_events_filter:
  "collect_events E ps =
     map (\<lambda>p. \<lparr>si_fd = pfd_fd p, si_status = ssm_from_revents E (scast (pfd_revents p))\<rparr>)
       (filter (\<lambda>p. pfd_revents p \<noteq> 0) ps)"
  by (induction ps) auto

interpretation pg: fd_registry pg_fds add_socket remove_socket pg_size
  by unfold_locales (simp_all add: pg_fds_def add_socket_def remove_socket_def pg_size_def
      filter_map comp_def)

lemma ssm_from_revents_bit:
  "bitmask_lib E \<Longrightarrow> ssm_from_revents E r AND ss_bits s \<noteq> 0 \<longleftrightarrow> r AND poll_bit s \<noteq> 0"
  by (cases s) (simp_all add: ssm_from_revents_def bitmask_lib_or)

text \<open>Testing the readable flag of a polled socket, as \<open>connection\<close> and \<open>acceptor\<close> do.\<close>

definition poll_request :: "socket_type \<Rightarrow> pollfd" where
  "poll_request fd = \<lparr>pfd_fd = fd, pfd_events = ucast (POLLIN OR POLLOUT), pfd_revents = 0\<rparr>"

lemma poll_socket_readable:
  assumes "bitmask_lib E" and "sys_poll E [poll_request fd] tm w = ((n, revents), w')"
  shows "\<exists>st. poll_socket E fd tm w = (st, w') \<and>
     (bm_and E st (ss_bits ss_readable) \<noteq> 0 \<longleftrightarrow> 0 < n \<and> scast (revents 0) AND POLLIN \<noteq> 0)"
  using assms ssm_from_revents_bit [OF assms(1), of "scast (revents 0)" ss_readable]
  by (auto simp: poll_socket_def poll_request_def bitmask_lib_and)

lemma pg_poll_fds: "pg_poll E g tm w = (evs, g', w') \<Longrightarrow> pg_fds g' = pg_fds g"
  by (auto simp: pg_poll_def pg_fds_def Let_def split: prod.splits)

lemma pg_poll_config: "pg_poll E g tm w = (evs, g', w') \<Longrightarrow> pg_config g' = pg_config g"
  by (auto simp: pg_poll_def Let_def split: prod.splits)

lemma map_events_write_revents [simp]: "map pfd_events (write_revents f ps) = map pfd_events ps"
  by (simp add: list_eq_iff_nth_eq nth_write_revents)

lemma pg_wf_alt: "pg_wf g \<longleftrightarrow> set (map pfd_events (pg_pfds g)) \<subseteq> {ucast (pg_config g)}"
  by (auto simp: pg_wf_def list_all_iff)

lemma pg_wf_new: "pg_wf (poll_group_new E config)"
  by (simp add: pg_wf_def poll_group_new_def Let_def)

lemma pg_wf_add: "pg_wf g \<Longrightarrow> pg_wf (add_socket g fd)"
  by (simp add: pg_wf_def add_socket_def)

lemma pg_wf_remove: "pg_wf g \<Longrightarrow> pg_wf (remove_socket g fd)"
  by (auto simp: pg_wf_def remove_socket_def list_all_iff)

lemma pg_wf_poll: "pg_wf g \<Longrightarrow> pg_poll E g tm w = (evs, g', w') \<Longrightarrow> pg_wf g'"
  by (auto simp: pg_wf_alt pg_poll_def Let_def simp del: set_map split: prod.splits)

lemma add_socket_config: "pg_config (add_socket g fd) = pg_config g"
  by (simp add: add_socket_def)

lemma remove_socket_config: "pg_config (remove_socket g fd) = pg_config g"
  by (simp add: remove_socket_def)

lemma pg_run_inv:
  "pg_wf g \<Longrightarrow> pg_run E cs (g, w) = (g', w') \<Longrightarrow>
     pg_wf g' \<and> pg_config g' = pg_config g \<and> pg_fds g' = pg_spec cs (pg_fds g)"
proof (induction E cs "(g, w)" arbitrary: g w rule: pg_run.induct)
  case (4 E tm cs g w)
  obtain evs g1 w1 where p: "pg_poll E g tm w = (evs, g1, w1)"
    by (cases "pg_poll E g tm w") auto
  with 4 have "pg_wf g' \<and> pg_config g' = pg_config g1 \<and> pg_fds g' = pg_spec cs (pg_fds g1)"
    by (auto dest: pg_wf_poll)
  with p show ?case by (simp add: pg_poll_config pg_poll_fds)
qed (simp_all add: pg_wf_add pg_wf_remove add_socket_config remove_socket_config)

section \<open>Properties\<close>

text \<open>The status made from the \<open>revents\<close> of \<open>poll\<close> has a status flag exactly when the
  corresponding bit was reported, for each of the four flags and whatever other bits are set,
  given that the bitmask operators are the bitwise ones; nothing but the four flags is ever set.\<close>

lemma ssm_from_revents_exact:
  assumes "bitmask_lib E"
  shows "(ssm_from_revents E r AND ss_bits s \<noteq> 0 \<longleftrightarrow> r AND poll_bit s \<noteq> 0) \<and>
         ssm_from_revents E r AND NOT 0x0F = 0"
  using assms ssm_from_revents_bit [OF assms, of r s]
  by (simp add: ssm_from_revents_def bitmask_lib_or)

text \<open>C29: \<open>poll_group::poll\<close> reports exactly the registered sockets whose \<open>revents\<close> the kernel left
  non-zero, in the order of registration and each with the status of its \<open>revents\<close>; it does
  so whatever count \<open>::poll\<close> returned, and neither the registered sockets nor the events they
  are polled for change.\<close>

theorem pg_poll_reports:
  assumes "sys_poll E (pg_pfds g) tm w = ((n, revents), w')"
  shows "fst (pg_poll E g tm w) =
       map (\<lambda>i. \<lparr>si_fd = pg_fds g ! i, si_status = ssm_from_revents E (scast (revents i))\<rparr>)
         (filter (\<lambda>i. revents i \<noteq> 0) [0..<pg_size g])
     \<and> pg_fds (fst (snd (pg_poll E g tm w))) = pg_fds g
     \<and> map pfd_events (pg_pfds (fst (snd (pg_poll E g tm w)))) = map pfd_events (pg_pfds g)"
proof -
  let ?ps = "write_revents revents (pg_pfds g)"
  have ps: "?ps = map (\<lambda>i. ?ps ! i) [0..<length (pg_pfds g)]"
    by (metis length_write_revents map_nth)
  have ev: "fst (pg_poll E g tm w) = collect_events E ?ps"
    using assms by (simp add: pg_poll_def Let_def)
  have "collect_events E ?ps =
      map (\<lambda>i. \<lparr>si_fd = pg_fds g ! i, si_status = ssm_from_revents E (scast (revents i))\<rparr>)
         (filter (\<lambda>i. revents i \<noteq> 0) [0..<pg_size g])"
    unfolding collect_events_filter
    by (subst ps) (auto simp: filter_map comp_def pg_fds_def nth_write_revents intro!: map_cong filter_cong)
  then show ?thesis
    using assms ev by (simp add: pg_poll_def pg_fds_def Let_def)
qed

theorem pg_poll_reports_witness:
  "map si_fd (fst (pg_poll sim (add_socket (add_socket (poll_group_new sim 4) 7) 9) 0
     (k0\<lparr>k_listening := [7], k_inbox := [''hi'']\<rparr>))) = [9]"
proof -
  let ?g = "add_socket (add_socket (poll_group_new sim 4) 7) 9"
  let ?k = "k0\<lparr>k_listening := [7], k_inbox := [''hi'']\<rparr>"
  have "sys_poll sim (pg_pfds ?g) 0 ?k =
      ((1, \<lambda>i. if i < 2 then sim_revents ?k (pg_pfds ?g ! i) else 0), ?k)"
    by (simp add: sim_calls add_socket_def poll_group_new_def sim_revents_def k0_def Let_def fun_eq_iff
        upt_conv_Cons)
  from pg_poll_reports [OF this] show ?thesis
    by (simp add: sim_revents_def add_socket_def poll_group_new_def k0_def upt_rec pg_fds_def Let_def)
qed

text \<open>C28: after any sequence of adding, removing and polling on a fresh group, the registered
  sockets are those the list specification gives (adding appends, removing drops every entry
  of that socket), \<open>size\<close> is their number, and every entry is polled for exactly the events the
  group was configured with.\<close>

theorem poll_group_sequence:
  assumes "pg_run E cs (poll_group_new E config, w) = (g, w')"
  shows "pg_fds g = pg_spec cs [] \<and> pg_size g = length (pg_spec cs []) \<and>
     list_all (\<lambda>p. pfd_events p = ucast (pg_config (poll_group_new E config))) (pg_pfds g)"
proof -
  have "pg_fds (poll_group_new E config) = []"
    by (simp add: pg_fds_def poll_group_new_def Let_def)
  then show ?thesis
    using pg_run_inv [OF pg_wf_new assms] by (auto simp: pg_wf_def)
qed

theorem poll_group_sequence_witness:
  "pg_fds (fst (pg_run sim [Pg_add 4, Pg_add 5, Pg_poll 0, Pg_remove 4] (poll_group_new sim 4, k0))) = [5]"
  using poll_group_sequence [of sim "[Pg_add 4, Pg_add 5, Pg_poll 0, Pg_remove 4]" 4 k0
      "fst (pg_run sim [Pg_add 4, Pg_add 5, Pg_poll 0, Pg_remove 4] (poll_group_new sim 4, k0))"
      "snd (pg_run sim [Pg_add 4, Pg_add 5, Pg_poll 0, Pg_remove 4] (poll_group_new sim 4, k0))"]
  by simp

end
