(* ===== verification/Connections.thy ===== *)
theory Connections
  imports Socket_Ops Poll
begin

text \<open>
  \<open>src/connection.cpp\<close> and \<open>include/yonaa/connection.hpp\<close>: a connected socket with its two
  endpoints. The object is a record; a member function takes and returns it beside the world.
  The loop of \<open>send\<close> runs until the kernel has taken every byte, so it is a partial function
  whose value is \<open>None\<close> when it does not return; that it does return is proved from the
  contract of the kernel's \<open>send\<close>.

  The locale \<open>socket_owner\<close> is the contract \<open>connection\<close> and \<open>acceptor\<close> share: an object that
  owns at most one socket and releases it at most once.
\<close>

unbundle bit_operations_syntax

section \<open>Model\<close>

datatype send_flags = sf_none | sf_dont_route | sf_end_of_record

fun sf_bits :: "send_flags \<Rightarrow> mask" where
  "sf_bits sf_none = 0x00"
| "sf_bits sf_dont_route = 0x01"
| "sf_bits sf_end_of_record = 0x02"

datatype receive_flags = rf_none | rf_peek

fun rf_bits :: "receive_flags \<Rightarrow> mask" where
  "rf_bits rf_none = 0x00"
| "rf_bits rf_peek = 0x01"

definition max_buffer_size :: nat where
  "max_buffer_size = 8192"

record connection =
  conn_socket :: socket_type
  conn_local :: endpoint
  conn_remote :: endpoint

definition connection_new :: connection where
  "connection_new = \<lparr>conn_socket = 0, conn_local = endpoint_new, conn_remote = endpoint_new\<rparr>"

definition from_native_socket ::
  "'w env \<Rightarrow> socket_type \<Rightarrow> endpoint \<Rightarrow> 'w \<Rightarrow> (connection \<times> 'w) result" where
  "from_native_socket E socket_fd remote_endpoint w =
     (let conn = connection_new\<lparr>conn_socket := socket_fd\<rparr> in
      rbind (get_local_endpoint E socket_fd w) (\<lambda>(e, w1).
        Inr (conn\<lparr>conn_local := e, conn_remote := remote_endpoint\<rparr>, w1)))"

definition is_connected :: "connection \<Rightarrow> bool" where
  "is_connected c \<longleftrightarrow> conn_socket c \<noteq> 0"

definition disconnect :: "'w env \<Rightarrow> connection \<Rightarrow> 'w \<Rightarrow> connection \<times> 'w" where
  "disconnect E c w =
     (if \<not> is_connected c then (c, w)
      else (let w1 = close_socket E (conn_socket c) w
            in (c\<lparr>conn_socket := 0, conn_local := endpoint_new, conn_remote := endpoint_new\<rparr>, w1)))"

definition connection_destroy :: "'w env \<Rightarrow> connection \<Rightarrow> 'w \<Rightarrow> 'w" where
  "connection_destroy E c w = (if is_connected c then snd (disconnect E c w) else w)"

text \<open>Move assignment between two different objects (the new value of \<open>*this\<close> and of \<open>other\<close>),
  of an object to itself, and the move constructor, whose target starts with the member
  initialisers of the class.\<close>

definition move_assign :: "connection \<Rightarrow> connection \<Rightarrow> connection \<times> connection" where
  "move_assign this other =
     (let this' = this\<lparr>conn_socket := conn_socket other, conn_local := conn_local other,
                       conn_remote := conn_remote other\<rparr>;
          other' = other\<lparr>conn_socket := 0, conn_local := endpoint_new, conn_remote := endpoint_new\<rparr>
      in (this', other'))"

definition move_assign_self :: "connection \<Rightarrow> connection" where
  "move_assign_self this =
     (let this' = this\<lparr>conn_socket := conn_socket this, conn_local := conn_local this,
                       conn_remote := conn_remote this\<rparr>
      in this'\<lparr>conn_socket := 0, conn_local := endpoint_new, conn_remote := endpoint_new\<rparr>)"

definition move_construct :: "connection \<Rightarrow> connection \<times> connection" where
  "move_construct other = move_assign connection_new other"

definition connect_ec ::
  "'w env \<Rightarrow> connection \<Rightarrow> endpoint list \<Rightarrow> error_code \<Rightarrow> 'w \<Rightarrow>
     (unit \<times> error_code \<times> connection \<times> 'w) result" where
  "connect_ec E c remote_endpoints ec w =
     (if remote_endpoints = [] then Inr ((), 1, c, w)
      else rbind (create_connected_socket E remote_endpoints w) (\<lambda>(socket_fd, w1).
        if socket_fd = 0 then Inr ((), sys_errno E w1, c, w1)
        else rbind (get_local_endpoint E socket_fd w1) (\<lambda>(le, w2).
             rbind (get_remote_endpoint E socket_fd w2) (\<lambda>(re, w3).
               Inr ((), ec, c\<lparr>conn_socket := socket_fd, conn_local := le, conn_remote := re\<rparr>, w3)))))"

definition connect ::
  "'w env \<Rightarrow> connection \<Rightarrow> endpoint list \<Rightarrow> 'w \<Rightarrow> ((error_code + unit) \<times> connection \<times> 'w) result" where
  "connect E c remote_endpoints w =
     rbind (connect_ec E c remote_endpoints no_error w) (\<lambda>r. Inr (throw_if_set r))"

partial_function (option) send_loop ::
  "'w env \<Rightarrow> socket_type \<Rightarrow> bytes \<Rightarrow> nat \<Rightarrow> 32 word \<Rightarrow> error_code \<Rightarrow> 'w \<Rightarrow> (unit \<times> error_code \<times> 'w) run" where
  "send_loop E fd send_buffer bytes_sent send_flags ec w =
     (if bytes_sent < length send_buffer
      then (case sys_send E fd (drop bytes_sent send_buffer) (send_flags OR MSG_NOSIGNAL) w of
              (r, w1) \<Rightarrow>
                (let send_result = int_of_ssize r in
                 if send_result = -1 then Some (Inr ((), sys_errno E w1, w1))
                 else send_loop E fd send_buffer (size_add bytes_sent send_result) send_flags ec w1))
      else Some (Inr ((), ec, w)))"

definition translate_send_flags :: "'w env \<Rightarrow> mask \<Rightarrow> 32 word" where
  "translate_send_flags E flags =
     (let fl = 0;
          fl = fl OR (if bm_and E flags (sf_bits sf_dont_route) \<noteq> 0 then MSG_DONTROUTE else 0);
          fl = fl OR (if bm_and E flags (sf_bits sf_end_of_record) \<noteq> 0 then MSG_EOR else 0)
      in fl)"

definition send_ec ::
  "'w env \<Rightarrow> connection \<Rightarrow> buffer \<Rightarrow> error_code \<Rightarrow> mask \<Rightarrow> 'w \<Rightarrow> (unit \<times> error_code \<times> 'w) run" where
  "send_ec E c data ec flags w =
     (if \<not> is_connected c \<or> buffer_size data = 0 then Some (Inr ((), 1, w))
      else send_loop E (conn_socket c) (buf_data data) 0 (translate_send_flags E flags) ec w)"

definition send ::
  "'w env \<Rightarrow> connection \<Rightarrow> buffer \<Rightarrow> mask \<Rightarrow> 'w \<Rightarrow> ((error_code + unit) \<times> 'w) run" where
  "send E c data flags w =
     dbind (send_ec E c data no_error flags w) (\<lambda>r. Some (Inr (throw_if_set r)))"

definition receive_ec ::
  "'w env \<Rightarrow> connection \<Rightarrow> nat \<Rightarrow> error_code \<Rightarrow> mask \<Rightarrow> 'w \<Rightarrow> buffer \<times> error_code \<times> connection \<times> 'w" where
  "receive_ec E c n ec flags w =
     (if \<not> is_connected c \<or> n = 0 then (buffer_empty, 1, c, w)
      else let receive_buffer = buffer_sized n;
               recv_flags = (if bm_and E flags (rf_bits rf_peek) \<noteq> 0 then MSG_PEEK else 0)
           in case sys_recv E (conn_socket c) n recv_flags w of
                ((r, bs), w1) \<Rightarrow>
                  (let recv_result = int_of_ssize r;
                       receive_buffer = \<lparr>buf_data = overwrite (buf_data receive_buffer) bs\<rparr>
                   in if recv_result = 0
                      then (case disconnect E c w1 of
                              (c', w2) \<Rightarrow> (buffer_empty, sys_errno E w2, c', w2))
                      else if recv_result = -1 then (buffer_empty, sys_errno E w1, c, w1)
                      else (buffer_resize receive_buffer (size_of_int recv_result), ec, c, w1)))"

text \<open>The three overloads that delegate to it.\<close>

definition receive_max_ec ::
  "'w env \<Rightarrow> connection \<Rightarrow> error_code \<Rightarrow> mask \<Rightarrow> 'w \<Rightarrow> buffer \<times> error_code \<times> connection \<times> 'w" where
  "receive_max_ec E c ec flags w = receive_ec E c max_buffer_size ec flags w"

definition receive_sized ::
  "'w env \<Rightarrow> connection \<Rightarrow> nat \<Rightarrow> mask \<Rightarrow> 'w \<Rightarrow> (error_code + buffer) \<times> connection \<times> 'w" where
  "receive_sized E c n flags w = throw_if_set (receive_ec E c n no_error flags w)"

definition receive ::
  "'w env \<Rightarrow> connection \<Rightarrow> mask \<Rightarrow> 'w \<Rightarrow> (error_code + buffer) \<times> connection \<times> 'w" where
  "receive E c flags w = throw_if_set (receive_ec E c max_buffer_size no_error flags w)"

definition has_data_available :: "'w env \<Rightarrow> connection \<Rightarrow> 'w \<Rightarrow> bool \<times> 'w" where
  "has_data_available E c w =
     (case poll_socket E (conn_socket c) 0 w of
        (status, w1) \<Rightarrow> (bm_and E status (ss_bits ss_readable) \<noteq> 0, w1))"

definition native_socket :: "connection \<Rightarrow> socket_type" where
  "native_socket c = conn_socket c"

definition local_endpoint :: "connection \<Rightarrow> endpoint" where
  "local_endpoint c = conn_local c"

definition remote_endpoint :: "connection \<Rightarrow> endpoint" where
  "remote_endpoint c = conn_remote c"

text \<open>What a trace shows of a \<open>send\<close>: every call is a \<open>send\<close> on the socket with the translated flags
  and no signal; either every byte of \<open>rest\<close> was taken and the error code is as before, or a
  proper prefix was taken and the code is a positive error number.\<close>

definition send_events_ok :: "socket_type \<Rightarrow> 32 word \<Rightarrow> sys_event list \<Rightarrow> bool" where
  "send_events_ok fd fl = list_all (\<lambda>ev. \<exists>bs r. ev = Ev_send fd bs (fl OR MSG_NOSIGNAL) r)"

definition delivered :: "bytes \<Rightarrow> error_code \<Rightarrow> error_code \<Rightarrow> bytes \<Rightarrow> bool" where
  "delivered rest ec ec' s \<longleftrightarrow>
     (ec' = ec \<and> s = rest) \<or> (0 < ec' \<and> (\<exists>n < length rest. s = take n rest))"

section \<open>The interface of an object that owns a socket\<close>

locale socket_owner =
  fixes sock :: "'o \<Rightarrow> socket_type"
    and blank :: "'o"
    and close :: "socket_type \<Rightarrow> 'w \<Rightarrow> 'w"
    and release :: "'o \<Rightarrow> 'w \<Rightarrow> 'o \<times> 'w"
  assumes sock_blank: "sock blank = 0"
    and release_idle: "sock x = 0 \<Longrightarrow> release x w = (x, w)"
    and release_open: "sock x \<noteq> 0 \<Longrightarrow> release x w = (blank, close (sock x) w)"
begin

lemma released: "release x w = (x', w') \<Longrightarrow> sock x' = 0"
  using release_open [of x w] release_idle [of x w] sock_blank by (cases "sock x = 0") auto

lemma release_twice: "release x w = (x', w') \<Longrightarrow> release x' w'' = (x', w'')"
  by (simp add: released release_idle)

lemma release_world: "snd (release x w) = (if sock x = 0 then w else close (sock x) w)"
  by (simp add: release_idle release_open)

end

interpretation conn_owner: socket_owner conn_socket connection_new "close_socket E" "disconnect E"
  for E :: "'w env"
  by unfold_locales (simp_all add: connection_new_def disconnect_def is_connected_def)

interpretation connect_pair: overload_pair
  "\<lambda>(c, es, w) ec. Some (connect_ec E c es ec w)" "\<lambda>(c, es, w). Some (connect E c es w)"
  for E :: "'w env"
  by unfold_locales (auto simp: connect_def rbind_def split: sum.splits)

interpretation send_pair: overload_pair
  "\<lambda>(c, data, flags, w) ec. send_ec E c data ec flags w" "\<lambda>(c, data, flags, w). send E c data flags w"
  for E :: "'w env"
  by unfold_locales (auto simp: send_def)

interpretation receive_pair: overload_pair
  "\<lambda>(c, n, flags, w) ec. Some (Inr (receive_ec E c n ec flags w))"
  "\<lambda>(c, n, flags, w). Some (Inr (receive_sized E c n flags w))"
  for E :: "'w env"
  by unfold_locales (auto simp: receive_sized_def)

section \<open>Lemmas\<close>

lemma disconnect_traced:
  "conn_socket c \<noteq> 0 \<Longrightarrow> \<exists>w'. disconnect (traced E) c (w, t) =
     (connection_new, (w', t @ [Ev_shutdown (conn_socket c) SHUT_RDWR, Ev_close (conn_socket c)]))"
  using close_socket_traced [of E "conn_socket c" w t] by (auto simp: conn_owner.release_open)

text \<open>One round of the loop of \<open>send\<close>, under the contract of the kernel's \<open>send\<close>.\<close>

lemma send_step:
  assumes "send_contract E" and "sent < length buf" and "length buf < 2 ^ 64"
    and "sys_send E fd (drop sent buf) fl w = (r, w1)"
  shows "(r = -1 \<and> int_of_ssize r = -1 \<and> 0 < sys_errno E w1) \<or>
    (int_of_ssize r = r \<and> 1 \<le> r \<and> size_add sent r = sent + nat r \<and> sent + nat r \<le> length buf)"
proof -
  have "drop sent buf \<noteq> []" using assms(2) by simp
  with assms(1,4) consider "r = -1" "0 < sys_errno E w1"
    | "1 \<le> r" "r \<le> int (length (drop sent buf))" "r \<le> MAX_RW_COUNT"
    unfolding send_contract_def by blast
  then show ?thesis
  proof cases
    case 1
    then show ?thesis by (simp add: int_of_ssize_id)
  next
    case 2
    then have "int_of_ssize r = r" by (simp add: int_of_ssize_id)
    moreover have "int sent + r \<le> int (length buf)" using 2 assms(2) by simp
    moreover from this have "size_add sent r = sent + nat r"
      using 2 assms(3) by (intro size_add_small) auto
    ultimately show ?thesis using 2 by auto
  qed
qed

lemma send_loop_done: "length buf \<le> sent \<Longrightarrow> send_loop E fd buf sent fl ec w = Some (Inr ((), ec, w))"
  by (simp add: send_loop.simps)

lemma send_loop_step_traced:
  assumes "sent < length buf" and "sys_send E fd (drop sent buf) (fl OR MSG_NOSIGNAL) w = (r, w1)"
  shows "send_loop (traced E) fd buf sent fl ec (w, t) =
    (let ev = Ev_send fd (drop sent buf) (fl OR MSG_NOSIGNAL) r in
     if int_of_ssize r = -1 then Some (Inr ((), sys_errno E w1, (w1, t @ [ev])))
     else send_loop (traced E) fd buf (size_add sent (int_of_ssize r)) fl ec (w1, t @ [ev]))"
  using assms by (simp add: send_loop.simps [of "traced E" fd buf sent] traced_simps Let_def)

lemma delivered_extend:
  assumes "delivered (drop k rest) ec ec' s" and "k \<le> length rest"
  shows "delivered rest ec ec' (take k rest @ s)"
  using assms(1) unfolding delivered_def
proof (elim disjE conjE exE)
  fix n
  assume "0 < ec'" "n < length (drop k rest)" "s = take n (drop k rest)"
  then show "(ec' = ec \<and> take k rest @ s = rest) \<or> (0 < ec' \<and> (\<exists>n < length rest. take k rest @ s = take n rest))"
    using assms(2) by (intro disjI2 conjI exI [of _ "k + n"]) (auto simp: take_add)
qed simp

lemma send_loop_total:
  assumes "send_contract E" and "length buf < 2 ^ 64" and "sent \<le> length buf"
  shows "\<exists>ec' w' u. send_loop (traced E) fd buf sent fl ec (w, t) = Some (Inr ((), ec', (w', t @ u)))
     \<and> send_events_ok fd fl u \<and> delivered (drop sent buf) ec ec' (sent_on fd u)"
  using assms(3)
proof (induction "length buf - sent" arbitrary: sent w t rule: less_induct)
  case less
  show ?case
  proof (cases "sent < length buf")
    case False
    with less.prems show ?thesis
      by (intro exI [of _ ec] exI [of _ w] exI [of _ "[]"])
        (simp add: send_loop_done send_events_ok_def delivered_def)
  next
    case True
    obtain r w1 where call: "sys_send E fd (drop sent buf) (fl OR MSG_NOSIGNAL) w = (r, w1)"
      by (cases "sys_send E fd (drop sent buf) (fl OR MSG_NOSIGNAL) w") auto
    let ?ev = "Ev_send fd (drop sent buf) (fl OR MSG_NOSIGNAL) r"
    note unfold = send_loop_step_traced [OF True call, of ec t, unfolded Let_def]
    consider "r = -1" "int_of_ssize r = -1" "0 < sys_errno E w1"
      | "int_of_ssize r = r" "1 \<le> r" "size_add sent r = sent + nat r" "sent + nat r \<le> length buf"
      using send_step [OF assms(1) True assms(2) call] by blast
    then show ?thesis
    proof cases
      case 1
      with unfold True show ?thesis
        by (intro exI [of _ "sys_errno E w1"] exI [of _ w1] exI [of _ "[?ev]"])
          (auto simp: send_events_ok_def delivered_def intro!: exI [of _ 0])
    next
      case 2
      then have "length buf - (sent + nat r) < length buf - sent" using True by linarith
      from less.hyps [OF this, of w1 "t @ [?ev]"] 2
      obtain ec' w' u where
        run: "send_loop (traced E) fd buf (sent + nat r) fl ec (w1, t @ [?ev]) =
              Some (Inr ((), ec', (w', (t @ [?ev]) @ u)))"
        and ok: "send_events_ok fd fl u"
        and res: "delivered (drop (nat r) (drop sent buf)) ec ec' (sent_on fd u)"
        by (auto simp: add.commute)
      have "delivered (drop sent buf) ec ec' (sent_on fd (?ev # u))"
        using delivered_extend [OF res] 2 True by simp
      moreover have "send_events_ok fd fl (?ev # u)"
        using ok by (simp add: send_events_ok_def)
      ultimately show ?thesis
        using run unfold 2 by (intro exI [of _ ec'] exI [of _ w'] exI [of _ "?ev # u"]) simp
    qed
  qed
qed

text \<open>Every call passes a non-empty tail of the buffer that starts behind the last one, so there are at
  most as many calls as bytes.\<close>

definition sends_inside :: "socket_type \<Rightarrow> bytes \<Rightarrow> nat \<Rightarrow> 32 word \<Rightarrow> sys_event list \<Rightarrow> bool" where
  "sends_inside fd buf sent fl u \<longleftrightarrow> length u \<le> length buf - sent
     \<and> list_all (\<lambda>ev. \<exists>k r. sent \<le> k \<and> k < length buf \<and> ev = Ev_send fd (drop k buf) (fl OR MSG_NOSIGNAL) r) u"

lemma send_loop_inside:
  assumes "send_contract E" and "length buf < 2 ^ 64" and "sent \<le> length buf"
    and "send_loop (traced E) fd buf sent fl ec (w, t) = Some (Inr ((), ec', (w', t')))"
  shows "\<exists>u. t' = t @ u \<and> sends_inside fd buf sent fl u"
  using assms(3,4)
proof (induction "length buf - sent" arbitrary: sent w t rule: less_induct)
  case less
  show ?case
  proof (cases "sent < length buf")
    case False
    with less.prems show ?thesis by (simp add: send_loop_done sends_inside_def)
  next
    case True
    obtain r w1 where call: "sys_send E fd (drop sent buf) (fl OR MSG_NOSIGNAL) w = (r, w1)" by fastforce
    let ?ev = "Ev_send fd (drop sent buf) (fl OR MSG_NOSIGNAL) r"
    note unfold = send_loop_step_traced [OF True call, of ec t, unfolded Let_def]
    consider "int_of_ssize r = -1"
      | "int_of_ssize r = r" "1 \<le> r" "size_add sent r = sent + nat r" "sent + nat r \<le> length buf"
      using send_step [OF assms(1) True assms(2) call] by blast
    then show ?thesis
    proof cases
      case 1
      with less.prems(2) unfold True show ?thesis by (auto simp: sends_inside_def)
    next
      case 2
      have "length buf - (sent + nat r) < length buf - sent" using 2 True by linarith
      moreover have "send_loop (traced E) fd buf (sent + nat r) fl ec (w1, t @ [?ev]) = Some (Inr ((), ec', (w', t')))"
        using less.prems(2) unfold 2 by simp
      ultimately obtain u where u: "t' = (t @ [?ev]) @ u" "sends_inside fd buf (sent + nat r) fl u"
        using less.hyps 2(4) by blast
      have "list_all (\<lambda>ev. \<exists>k r. sent \<le> k \<and> k < length buf \<and> ev = Ev_send fd (drop k buf) (fl OR MSG_NOSIGNAL) r) u"
        using u(2) unfolding sends_inside_def by (auto elim!: list.pred_mono_strong) (metis add_leD1)
      moreover have "Suc (length u) \<le> length buf - sent"
        using u(2) 2 True unfolding sends_inside_def by linarith
      ultimately have "sends_inside fd buf sent fl (?ev # u)"
        using True unfolding sends_inside_def by auto
      with u(1) show ?thesis by (intro exI [of _ "?ev # u"]) simp
    qed
  qed
qed

lemma connected_new [simp]: "\<not> is_connected connection_new"
  by (simp add: is_connected_def connection_new_def)

lemma move_assign_simps: "move_assign this other = (other, connection_new)"
  by (simp add: move_assign_def connection_new_def Let_def)

lemma connect_ec_success:
  assumes "create_connected_socket E es w = Inr (fd, w1)" and "es \<noteq> []" and "fd \<noteq> 0"
    and "get_local_endpoint E fd w1 = Inr (le, w2)" and "get_remote_endpoint E fd w2 = Inr (re, w3)"
  shows "connect_ec E c es ec w = Inr ((), ec, \<lparr>conn_socket = fd, conn_local = le, conn_remote = re\<rparr>, w3)"
  using assms by (simp add: connect_ec_def)

lemma receive_ec_data:
  assumes "is_connected c" and "sys_recv E (conn_socket c) n fl w = ((r, bs), w1)"
    and "fl = (if bm_and E flags (rf_bits rf_peek) \<noteq> 0 then MSG_PEEK else 0)"
    and "recv_contract E" and "0 < r"
  shows "receive_ec E c n ec flags w = (\<lparr>buf_data = bs\<rparr>, ec, c, w1) \<and> length bs \<le> n"
proof -
  have r: "r \<le> int n" "r \<le> MAX_RW_COUNT" "length bs = nat r"
    using assms(2,4,5) unfolding recv_contract_def by force+
  then have "int_of_ssize r = r" "size_of_int r = nat r"
    using assms(5) by (simp_all add: int_of_ssize_id size_of_int_nonneg)
  moreover have "vector_resize (nat r) (overwrite (buf_data (buffer_sized n)) bs) = bs"
    using r by (simp add: vector_resize_shrink buffer_sized_def)
      (metis length_vector_resize nat_int nat_mono r(1) r(3) take_overwrite)
  moreover have "n \<noteq> 0" using r assms(5) by auto
  ultimately show ?thesis
    using assms r by (simp add: receive_ec_def buffer_resize_def Let_def)
qed

lemma receive_ec_cases:
  assumes "recv_contract E" and "is_connected c" and "0 < n"
    and "sys_recv E (conn_socket c) n fl w = ((r, bs), w1)"
    and "fl = (if bm_and E flags (rf_bits rf_peek) \<noteq> 0 then MSG_PEEK else 0)"
  shows "(0 < r \<and> receive_ec E c n ec flags w = (\<lparr>buf_data = bs\<rparr>, ec, c, w1) \<and> length bs \<le> n) \<or>
    (r = 0 \<and> (\<exists>w2. w2 = close_socket E (conn_socket c) w1
       \<and> receive_ec E c n ec flags w = (buffer_empty, sys_errno E w2, connection_new, w2))) \<or>
    (r = -1 \<and> receive_ec E c n ec flags w = (buffer_empty, sys_errno E w1, c, w1) \<and> 0 < sys_errno E w1)"
proof -
  have sock: "conn_socket c \<noteq> 0" using assms(2) by (simp add: is_connected_def)
  consider "0 < r" | "r = 0" | "r = -1" "0 < sys_errno E w1"
    using assms(1,4) unfolding recv_contract_def by force
  then show ?thesis
  proof cases
    case 1
    then show ?thesis using receive_ec_data [OF assms(2,4,5,1)] by simp
  next
    case 2
    then show ?thesis
      using assms(2-5) sock by (simp add: receive_ec_def conn_owner.release_open int_of_ssize_def Let_def)
  next
    case 3
    then show ?thesis
      using assms(2-5) by (simp add: receive_ec_def int_of_ssize_def Let_def)
  qed
qed

lemma receive_max_outcomes:
  assumes "bitmask_lib E" and "recv_contract E" and "is_connected c"
    and "sys_recv E (conn_socket c) 8192 0 w = ((n, bs), w1)"
  shows "receive_max_ec E c ec 0 w =
      (if 0 < n then (\<lparr>buf_data = bs\<rparr>, ec, c, w1)
       else if n = 0 then (let w2 = close_socket E (conn_socket c) w1 in (buffer_empty, sys_errno E w2, connection_new, w2))
       else (buffer_empty, sys_errno E w1, c, w1))
    \<and> (0 < n \<longrightarrow> bs \<noteq> [])"
proof -
  have "0 < n \<longrightarrow> bs \<noteq> []" using assms(2,4) unfolding recv_contract_def by force
  with receive_ec_cases [OF assms(2,3) _ assms(4), where flags = 0 and ec = ec] show ?thesis
    by (auto simp: receive_max_ec_def max_buffer_size_def bitmask_lib_and [OF assms(1)] Let_def)
qed

lemma disconnect_conn: "disconnect E c w = (conn, w') \<Longrightarrow> conn = c \<or> conn = connection_new"
  by (cases "conn_socket c = 0") (auto simp: conn_owner.release_open conn_owner.release_idle)

lemma receive_max_conn: "receive_max_ec E c ec fl w = (d, ec', conn, w') \<Longrightarrow> conn = c \<or> conn = connection_new"
  by (auto simp: receive_max_ec_def receive_ec_def Let_def dest: disconnect_conn split: if_splits prod.splits)

lemma get_endpoint_no_close:
  "get_endpoint (traced E) fd b (w, t) = Inr (e, (w', t')) \<Longrightarrow> \<exists>u. t' = t @ u \<and> closed u = []"
  by (drule get_endpoint_traced) auto

lemma send_delivers_all:
  assumes "send_contract E" and "is_connected c" and "0 < buffer_size data" and "buffer_size data < 2 ^ 64"
  shows "\<exists>ec' w' u. send_ec (traced E) c data ec flags (w, t) = Some (Inr ((), ec', (w', t @ u)))
     \<and> send_events_ok (conn_socket c) (translate_send_flags E flags) u
     \<and> delivered (buf_data data) ec ec' (sent_on (conn_socket c) u)"
proof -
  have "translate_send_flags (traced E) flags = translate_send_flags E flags"
    by (simp add: translate_send_flags_def traced_simps)
  then show ?thesis
    using send_loop_total [OF assms(1), of "buf_data data" 0 "conn_socket c"
        "translate_send_flags E flags" ec w t] assms(2-4)
    by (simp add: send_ec_def buffer_size_def)
qed

text \<open>Sending never ends in a fault, with any kernel.\<close>

lemma send_loop_no_fault:
  assumes "send_loop E fd buf sent fl ec w = Some r"
  shows "r \<noteq> Inl f"
  using assms
  by (rule send_loop.raw_induct [where P = "\<lambda>E fd buf sent fl ec w r. r \<noteq> Inl f", rotated])
    (auto simp: Let_def split: if_splits prod.splits)

lemma send_ec_no_fault: "send_ec E c data ec flags w \<noteq> Some (Inl f)"
  by (auto simp: send_ec_def dest: send_loop_no_fault)

section \<open>Properties\<close>





text \<open>\<open>send\<close> on a connection that is not connected, or of an empty buffer, makes no call at all
  and reports error 1; the throwing overload throws it. So does \<open>receive\<close> on a connection that is
  not connected or for 0 bytes, and it returns an empty buffer.\<close>

lemma closed_connection_errors:
  assumes "\<not> is_connected c \<or> buffer_size data = 0" and "\<not> is_connected c \<or> n = 0"
  shows "send_ec E c data ec flags w = Some (Inr ((), 1, w))
     \<and> send E c data flags w = Some (Inr (Inl 1, w))
     \<and> receive_ec E c n ec rflags w = (buffer_empty, 1, c, w)
     \<and> receive_sized E c n rflags w = (Inl 1, c, w)"
proof -
  have s: "send_ec E c data ec flags w = Some (Inr ((), 1, w))" for ec
    using assms(1) by (simp add: send_ec_def)
  have r: "receive_ec E c n ec rflags w = (buffer_empty, 1, c, w)" for ec
    using assms(2) by (simp add: receive_ec_def)
  have "send E c data flags w = Some (Inr (Inl 1, w))"
    using send_pair.throws_iff [of E "(c, data, flags, w)" 1 w] s by (simp add: ec_bool_def)
  moreover have "receive_sized E c n rflags w = (Inl 1, c, w)"
    using receive_pair.throws_iff [of E "(c, n, rflags, w)" 1 "(c, w)"] r by (simp add: ec_bool_def)
  ultimately show ?thesis using s r by simp
qed



text \<open>\<open>disconnect\<close> shuts down and closes the socket of a connected connection, exactly once:
  afterwards the connection is as newly made, and neither a further \<open>disconnect\<close> nor the
  destructor makes another call. On a connection that is not connected it does nothing.\<close>

lemma disconnect_once:
  assumes "disconnect (traced E) c (w, t) = (c', (w', t'))"
  shows "\<not> is_connected c'
     \<and> t' = t @ (if is_connected c then [Ev_shutdown (conn_socket c) SHUT_RDWR, Ev_close (conn_socket c)] else [])
     \<and> disconnect (traced E) c' s = (c', s) \<and> connection_destroy (traced E) c' s = s"
proof -
  have c': "conn_socket c' = 0"
    using conn_owner.released [OF assms] .
  moreover have "t' = t @ (if is_connected c
      then [Ev_shutdown (conn_socket c) SHUT_RDWR, Ev_close (conn_socket c)] else [])"
    using disconnect_traced [of c E w t] assms by (auto simp: is_connected_def conn_owner.release_idle)
  ultimately show ?thesis
    by (simp add: is_connected_def connection_destroy_def conn_owner.release_idle)
qed

text \<open>Move assignment hands the other connection's socket and endpoints over and leaves the other
  connection closed, so its destructor closes nothing; the socket the target owned before is
  dropped without being closed, and moving a connection to itself loses its socket.\<close>

lemma move_transfers:
  assumes "move_assign this other = (this', other')"
  shows "this' = other \<and> \<not> is_connected other' \<and> connection_destroy E other' w = w
     \<and> (conn_socket this \<noteq> conn_socket other \<longrightarrow> conn_socket this' \<noteq> conn_socket this)
     \<and> \<not> is_connected (move_assign_self this)"
  using assms by (auto simp: move_assign_simps connection_destroy_def is_connected_def connection_new_def
      move_assign_self_def)

text \<open>C37: \<open>connect\<close> either reports an error and leaves the connection as it was (error 1 without any
  call when there is no endpoint, the kernel's error number when no endpoint could be connected),
  or it leaves the error code alone and the connection owns a new non-zero socket. In no case is a
  descriptor closed, so the socket of a connection that was already connected is lost.\<close>

theorem connect_outcomes:
  assumes "connect_ec (traced E) c es ec (w, t) = Inr ((), ec', c', (w', t'))"
  shows "\<exists>u. t' = t @ u \<and> closed u = [] \<and>
     ((es = [] \<and> u = [] \<and> ec' = 1 \<and> c' = c) \<or>
      (es \<noteq> [] \<and> ec' = sys_errno E w' \<and> c' = c) \<or>
      (es \<noteq> [] \<and> ec' = ec \<and> is_connected c' \<and> opened u \<noteq> [] \<and> last (opened u) = conn_socket c'))"
proof (cases "es = []")
  case True
  with assms show ?thesis by (simp add: connect_ec_def)
next
  case False
  then obtain fd w1 t1 where cr: "create_connected_socket (traced E) es (w, t) = Inr (fd, (w1, t1))"
    using assms by (auto simp: connect_ec_def bind_simps)
  then obtain u where u: "t1 = t @ u" "closed u = []" "fd \<noteq> 0 \<longrightarrow> opened u \<noteq> [] \<and> last (opened u) = fd"
    using create_connected_socket_traced [OF cr] by blast
  show ?thesis
  proof (cases "fd = 0")
    case True
    with False assms cr u show ?thesis
      by (intro exI [of _ u]) (auto simp: connect_ec_def traced_simps)
  next
    case nonzero: False
    then obtain le w2 t2 re where l: "get_local_endpoint (traced E) fd (w1, t1) = Inr (le, (w2, t2))"
      and r: "get_remote_endpoint (traced E) fd (w2, t2) = Inr (re, (w', t'))"
      and c': "ec' = ec" "conn_socket c' = fd"
      using False assms cr by (auto simp: connect_ec_def bind_simps)
    let ?v = "u @ [Ev_getsockname fd, Ev_getsockopt fd SOL_SOCKET SO_PROTOCOL,
        Ev_getpeername fd, Ev_getsockopt fd SOL_SOCKET SO_PROTOCOL]"
    have "t' = t @ ?v"
      using get_endpoint_traced [OF l [unfolded get_local_endpoint_def]]
        get_endpoint_traced [OF r [unfolded get_remote_endpoint_def]] u(1) by simp
    then show ?thesis
      using u c' nonzero False by (intro exI [of _ ?v]) (auto simp: is_connected_def)
  qed
qed

theorem connect_outcomes_witness:
  "\<exists>e c t. connect_ec (traced sim) (connection_new\<lparr>conn_socket := 2\<rparr>) [e] 0 (k0, []) =
       Inr ((), 0, c, (k0\<lparr>k_next := 4, k_open := [3]\<rparr>, t)) \<and> conn_socket c = 3 \<and> closed t = []"
proof -
  let ?e = "node_endpoint (Addrinfo 6 sim_addr 16 None)"
  obtain c t where run: "connect_ec (traced sim) (connection_new\<lparr>conn_socket := 2\<rparr>) [?e] 0 (k0, []) =
      Inr ((), 0, c, (k0\<lparr>k_next := 4, k_open := [3]\<rparr>, t))" and c: "conn_socket c = 3"
    by (simp add: connect_ec_def try_connect_def traced_simps sim_calls k0_def family_def node_endpoint_def
        sim_addr_def sa_family_def byte_at_def protocol_def get_local_endpoint_def get_remote_endpoint_def
        get_endpoint_def from_native_address_simps)
  from connect_outcomes [OF run] have "closed t = []" by auto
  with run c show ?thesis by blast
qed

end
