(* ===== verification/Acceptors.thy ===== *)
theory Acceptors
  imports Connections
begin

text \<open>
  \<open>src/acceptor.cpp\<close> and \<open>include/yonaa/acceptor.hpp\<close>: the listening socket. Like a connection,
  an acceptor owns at most one socket and releases it at most once; it is the second instance
  of the locale \<open>socket_owner\<close>.
\<close>

unbundle bit_operations_syntax

section \<open>Model\<close>

datatype acceptor_config = ac_none | ac_reuse_address

fun ac_bits :: "acceptor_config \<Rightarrow> mask" where
  "ac_bits ac_none = 0x00"
| "ac_bits ac_reuse_address = 0x01"

definition backlog_size :: nat where
  "backlog_size = 128"

record acceptor =
  acc_socket :: socket_type
  acc_local :: endpoint

definition acceptor_new :: acceptor where
  "acceptor_new = \<lparr>acc_socket = 0, acc_local = endpoint_new\<rparr>"

definition is_open :: "acceptor \<Rightarrow> bool" where
  "is_open a \<longleftrightarrow> acc_socket a \<noteq> 0"

definition open_ec ::
  "'w env \<Rightarrow> acceptor \<Rightarrow> endpoint list \<Rightarrow> error_code \<Rightarrow> mask \<Rightarrow> 'w \<Rightarrow>
     (unit \<times> error_code \<times> acceptor \<times> 'w) result" where
  "open_ec E a local_endpoints ec cfg w =
     (if local_endpoints = [] then Inr ((), 1, a, w)
      else let reuse_addr = (bm_and E cfg (ac_bits ac_reuse_address) \<noteq> 0) in
        rbind (create_listening_socket E local_endpoints backlog_size reuse_addr w) (\<lambda>(socket_fd, w1).
          if socket_fd = 0 then Inr ((), 32, a, w1)
          else rbind (get_local_endpoint E socket_fd w1) (\<lambda>(e, w2).
            Inr ((), ec, a\<lparr>acc_socket := socket_fd, acc_local := e\<rparr>, w2))))"

definition open_acceptor ::
  "'w env \<Rightarrow> acceptor \<Rightarrow> endpoint list \<Rightarrow> mask \<Rightarrow> 'w \<Rightarrow> ((error_code + unit) \<times> acceptor \<times> 'w) result" where
  "open_acceptor E a local_endpoints cfg w =
     rbind (open_ec E a local_endpoints no_error cfg w) (\<lambda>r. Inr (throw_if_set r))"

definition close_acceptor :: "'w env \<Rightarrow> acceptor \<Rightarrow> 'w \<Rightarrow> acceptor \<times> 'w" where
  "close_acceptor E a w =
     (if \<not> is_open a then (a, w)
      else (let w1 = close_socket E (acc_socket a) w
            in (a\<lparr>acc_socket := 0, acc_local := endpoint_new\<rparr>, w1)))"

definition acceptor_destroy :: "'w env \<Rightarrow> acceptor \<Rightarrow> 'w \<Rightarrow> 'w" where
  "acceptor_destroy E a w = (if is_open a then snd (close_acceptor E a w) else w)"

definition has_pending_connection :: "'w env \<Rightarrow> acceptor \<Rightarrow> 'w \<Rightarrow> bool \<times> 'w" where
  "has_pending_connection E a w =
     (case poll_socket E (acc_socket a) 0 w of
        (status, w1) \<Rightarrow> (bm_and E status (ss_bits ss_readable) \<noteq> 0, w1))"

definition accept_ec ::
  "'w env \<Rightarrow> acceptor \<Rightarrow> error_code \<Rightarrow> 'w \<Rightarrow> (connection \<times> error_code \<times> 'w) result" where
  "accept_ec E a ec w =
     (if \<not> is_open a then Inr (connection_new, 1, w)
      else (case sys_accept E (acc_socket a) w of
              ((remote_socket_fd, remote_addr, remote_addr_size), w1) \<Rightarrow>
                if remote_socket_fd = -1 then Inr (connection_new, sys_errno E w1, w1)
                else rbind (from_native_address (protocol (acc_local a)) remote_addr remote_addr_size)
                  (\<lambda>remote_endpoint.
                    rbind (from_native_socket E remote_socket_fd remote_endpoint w1) (\<lambda>(conn, w2).
                      Inr (conn, ec, w2)))))"

definition accept :: "'w env \<Rightarrow> acceptor \<Rightarrow> 'w \<Rightarrow> ((error_code + connection) \<times> 'w) result" where
  "accept E a w = rbind (accept_ec E a no_error w) (\<lambda>r. Inr (throw_if_set r))"

definition acceptor_local_endpoint :: "acceptor \<Rightarrow> endpoint" where
  "acceptor_local_endpoint a = acc_local a"

section \<open>Interpretations\<close>

interpretation acc_owner: socket_owner acc_socket acceptor_new "close_socket E" "close_acceptor E"
  for E :: "'w env"
  by unfold_locales (simp_all add: acceptor_new_def close_acceptor_def is_open_def)

interpretation open_pair: overload_pair
  "\<lambda>(a, es, cfg, w) ec. Some (open_ec E a es ec cfg w)" "\<lambda>(a, es, cfg, w). Some (open_acceptor E a es cfg w)"
  for E :: "'w env"
  by unfold_locales (auto simp: open_acceptor_def rbind_def split: sum.splits)

interpretation accept_pair: overload_pair
  "\<lambda>(a, w) ec. Some (accept_ec E a ec w)" "\<lambda>(a, w). Some (accept E a w)"
  for E :: "'w env"
  by unfold_locales (auto simp: accept_def rbind_def split: sum.splits)

section \<open>Lemmas\<close>

lemma close_acceptor_traced:
  "acc_socket a \<noteq> 0 \<Longrightarrow> \<exists>w'. close_acceptor (traced E) a (w, t) =
     (acceptor_new, (w', t @ [Ev_shutdown (acc_socket a) SHUT_RDWR, Ev_close (acc_socket a)]))"
  using close_socket_traced [of E "acc_socket a" w t] by (auto simp: acc_owner.release_open)

lemma from_native_socket_fd:
  "from_native_socket E fd re w = Inr (c, w') \<Longrightarrow> conn_socket c = fd \<and> conn_remote c = re"
  by (auto simp: from_native_socket_def bind_simps Let_def)

section \<open>Properties\<close>

text \<open>Opening an acceptor with no endpoints reports error 1 without a call; if no endpoint can be
  bound it reports error 32; in both cases the acceptor is unchanged. Otherwise the error code is
  left alone and the acceptor owns the socket that was made to listen last, with a backlog of 128
  and with address reuse exactly when it was asked for.\<close>

lemma open_outcomes:
  assumes "bitmask_lib E" and "open_ec (traced E) a es ec cfg (w, t) = Inr ((), ec', a', (w', t'))"
  shows "(es = [] \<and> ec' = 1 \<and> a' = a \<and> t' = t) \<or> (es \<noteq> [] \<and> ec' = 32 \<and> a' = a) \<or>
     (ec' = ec \<and> is_open a' \<and> (\<exists>u v e fam r1 r2 r3. e \<in> set es \<and> r1 \<noteq> -1 \<and> r2 \<noteq> -1 \<and> r3 \<noteq> -1
        \<and> t' = t @ u @ [Ev_socket fam SOCK_STREAM (protocol e) (acc_socket a')]
             @ (if cfg AND 1 \<noteq> 0 then [Ev_setsockopt (acc_socket a') SOL_SOCKET SO_REUSEADDR 1 r1] else [])
             @ [Ev_bind (acc_socket a') r2, Ev_listen (acc_socket a') 128 r3] @ v \<and> closed u = [] \<and> closed v = []))"
proof (cases "es = []")
  case True
  with assms show ?thesis by (simp add: open_ec_def)
next
  case False
  let ?reuse = "cfg AND 1 \<noteq> 0"
  have reuse: "bm_and (traced E) cfg 1 = cfg AND 1"
    using assms(1) by (simp add: traced_simps bitmask_lib_and)
  obtain fd w1 t1 where cr: "create_listening_socket (traced E) es 128 ?reuse (w, t) = Inr (fd, (w1, t1))"
    using assms False by (auto simp: open_ec_def reuse backlog_size_def bind_simps)
  show ?thesis
  proof (cases "fd = 0")
    case True
    with assms False cr show ?thesis by (auto simp: open_ec_def reuse backlog_size_def)
  next
    case nonzero: False
    then obtain le where l: "get_local_endpoint (traced E) fd (w1, t1) = Inr (le, (w', t'))"
      and a': "ec' = ec" "acc_socket a' = fd"
      using False assms cr by (auto simp: open_ec_def reuse backlog_size_def bind_simps)
    from get_endpoint_traced [OF l [unfolded get_local_endpoint_def]]
    have t': "t' = t1 @ [Ev_getsockname fd, Ev_getsockopt fd SOL_SOCKET SO_PROTOCOL]" by simp
    obtain e u fam r1 r2 r3 where seq: "e \<in> set es" "r1 \<noteq> -1" "r2 \<noteq> -1" "r3 \<noteq> -1" "closed u = []"
      "t1 = t @ u @ [Ev_socket fam SOCK_STREAM (protocol e) fd]
         @ (if ?reuse then [Ev_setsockopt fd SOL_SOCKET SO_REUSEADDR 1 r1] else [])
         @ [Ev_bind fd r2, Ev_listen fd (int_of_ssize (int 128)) r3]"
      using listen_sequence [OF cr nonzero] by blast
    show ?thesis
      unfolding t' seq(6) a' using seq(1-5) nonzero a'
      by (intro disjI2 conjI exI [of _ u] exI [of _ e] exI [of _ fam] exI [of _ r1] exI [of _ r2] exI [of _ r3]
          exI [of _ "[Ev_getsockname fd, Ev_getsockopt fd SOL_SOCKET SO_PROTOCOL]"])
        (simp_all add: is_open_def int_of_ssize_def)
  qed
qed

text \<open>C27: \<open>accept\<close> on an acceptor that is not open makes no call and reports error 1; a failed
  \<open>::accept\<close> is reported with the kernel's error number; both give a connection that is not
  connected. On success the connection owns exactly the descriptor the kernel returned, its
  remote endpoint holds the bytes the kernel reported with the acceptor's protocol, and the
  error code is left as it was, an earlier error included.\<close>

theorem accept_outcomes:
  assumes "accept_ec E a ec w = Inr (c, ec', w')"
  shows "if \<not> is_open a then ec' = 1 \<and> c = connection_new \<and> w' = w
     else (\<exists>fd ad n w1. sys_accept E (acc_socket a) w = ((fd, ad, n), w1) \<and>
       (if fd = -1 then ec' = sys_errno E w1 \<and> c = connection_new \<and> w' = w1
        else ec' = ec \<and> native_socket c = fd \<and> n \<le> length ad
           \<and> ep_data (remote_endpoint c) = take n ad
           \<and> protocol (remote_endpoint c) = protocol (acc_local a)))"
proof (cases "is_open a")
  case False
  with assms show ?thesis by (simp add: accept_ec_def)
next
  case True
  obtain fd ad n w1 where call: "sys_accept E (acc_socket a) w = ((fd, ad, n), w1)"
    by (metis prod.exhaust)
  show ?thesis
  proof (cases "fd = -1")
    case True
    with assms call \<open>is_open a\<close> show ?thesis by (auto simp: accept_ec_def)
  next
    case False
    then obtain re where re: "from_native_address (protocol (acc_local a)) ad n = Inr re"
      and c: "from_native_socket E fd re w1 = Inr (c, w')" and ec: "ec' = ec"
      using assms call True by (auto simp: accept_ec_def bind_simps)
    have "n \<le> length ad" "ep_data re = take n ad" "protocol re = protocol (acc_local a)"
      using re by (auto simp: from_native_address_simps protocol_def split: if_splits)
    with from_native_socket_fd [OF c] call True False ec show ?thesis
      by (simp add: native_socket_def remote_endpoint_def)
  qed
qed

theorem accept_outcomes_witness:
  "\<exists>c. accept_ec sim (acceptor_new\<lparr>acc_socket := 3\<rparr>) 7 (k0\<lparr>k_next := 4, k_backlog := 1\<rparr>) =
     Inr (c, 7, k0\<lparr>k_next := 5, k_open := [4]\<rparr>) \<and> native_socket c = 4"
proof -
  let ?a = "acceptor_new\<lparr>acc_socket := 3\<rparr>"
  obtain c where run: "accept_ec sim ?a 7 (k0\<lparr>k_next := 4, k_backlog := 1\<rparr>) =
      Inr (c, 7, k0\<lparr>k_next := 5, k_open := [4]\<rparr>)"
    by (simp add: accept_ec_def is_open_def sim_calls k0_def from_native_address_simps sim_addr_def
        from_native_socket_def get_local_endpoint_def get_endpoint_def)
  from accept_outcomes [OF run] have "native_socket c = 4"
    by (simp add: is_open_def sim_calls k0_def)
  with run show ?thesis by blast
qed

text \<open>\<open>has_pending_connection\<close> asks the kernel about the acceptor's descriptor and says whether
  it was reported readable. A closed acceptor has descriptor 0, so the question is then about
  the standard input of the process, and the answer is true when that has input waiting.\<close>

lemma has_pending_connection_polls:
  assumes "bitmask_lib E" and "sys_poll E [poll_request (acc_socket a)] 0 w = ((n, revents), w')"
  shows "has_pending_connection E a w = (0 < n \<and> scast (revents 0) AND POLLIN \<noteq> (0 :: 32 word), w')
     \<and> (\<not> is_open a \<longrightarrow> acc_socket a = 0)"
  using poll_socket_readable [OF assms] by (auto simp: has_pending_connection_def is_open_def)

text \<open>Closing an acceptor closes its socket exactly once and makes it as new; a second close and
  the destructor make no call.\<close>

lemma close_acceptor_once:
  assumes "close_acceptor (traced E) a (w, t) = (a', (w', t'))"
  shows "\<not> is_open a'
     \<and> t' = t @ (if is_open a then [Ev_shutdown (acc_socket a) SHUT_RDWR, Ev_close (acc_socket a)] else [])
     \<and> close_acceptor (traced E) a' s = (a', s) \<and> acceptor_destroy (traced E) a' s = s"
proof -
  have "acc_socket a' = 0"
    using acc_owner.released [OF assms] .
  moreover have "t' = t @ (if is_open a
      then [Ev_shutdown (acc_socket a) SHUT_RDWR, Ev_close (acc_socket a)] else [])"
    using close_acceptor_traced [of a E w t] assms by (auto simp: is_open_def acc_owner.release_idle)
  ultimately show ?thesis
    by (simp add: is_open_def acceptor_destroy_def acc_owner.release_idle)
qed

end
