(* ===== verification/Servers.thy ===== *)
theory Servers
  imports Acceptors
begin

text \<open>
  \<open>src/server.cpp\<close> and \<open>include/yonaa/server.hpp\<close>: the server's client table and the work of its
  network thread. The vector of \<open>unique_ptr<client_info>\<close> is a list of optional records, so a
  pointer that \<open>std::remove_if\<close> has moved from is \<open>None\<close> and reading through it is
  \<open>Null_deref\<close>. A non-owning \<open>client_info *\<close> is a position in that list with the record found
  there.

  A handler installed by the user is an unknown function. It is given the arguments of the
  callback and the world, and answers with a new world and the calls it makes on the server;
  those calls are run at once (\<open>run_calls\<close>), as they would be from inside the callback. A handler
  that was never installed is \<open>None\<close>; calling it throws \<open>std::bad_function_call\<close>, which ends the
  network thread.

  The file-static counter \<open>next_available_id\<close> is a field of the state: the model follows one
  server. Log statements are not modelled; they are empty in the default build.
\<close>

unbundle bit_operations_syntax

section \<open>State\<close>

type_synonym client_id = "64 word"

record client_info =
  ci_id :: client_id
  ci_conn :: connection
  ci_fd :: socket_type
  ci_connected :: bool

datatype api_call =
    Call_message_client buffer client_id
  | Call_message_all_clients buffer client_id
  | Call_remove_client client_id
  | Call_stop

record 'w server =
  srv_port :: "16 word"
  srv_running :: bool
  srv_has_disconnected :: bool
  srv_ec :: error_code
  srv_clients :: "client_info option list"
  srv_on_data :: "(client_id \<Rightarrow> buffer \<Rightarrow> 'w \<Rightarrow> api_call list \<times> 'w) option"
  srv_on_connect :: "(client_id \<Rightarrow> 'w \<Rightarrow> api_call list \<times> 'w) option"
  srv_on_disconnect :: "(client_id \<Rightarrow> 'w \<Rightarrow> api_call list \<times> 'w) option"
  srv_thread :: thread_state
  srv_acceptor :: acceptor
  srv_poll :: poll_group
  next_available_id :: client_id

definition server_new :: "'w env \<Rightarrow> 16 word \<Rightarrow> 'w server" where
  "server_new E p =
     \<lparr>srv_port = p, srv_running = False, srv_has_disconnected = False, srv_ec = no_error,
      srv_clients = [], srv_on_data = None, srv_on_connect = None, srv_on_disconnect = None,
      srv_thread = No_thread, srv_acceptor = acceptor_new,
      srv_poll = poll_group_new E (ss_bits ss_readable), next_available_id = 1\<rparr>"

section \<open>Operations of the user's thread\<close>

text \<open>\<open>run\<close> assigns a new thread to \<open>network_thread_\<close>; assigning over a joinable thread calls
  \<open>std::terminate\<close>.\<close>

definition run_server :: "'w server \<Rightarrow> 'w server result" where
  "run_server s =
     (if srv_running s then Inr s
      else if joinable (srv_thread s) then Inl Terminate
      else Inr (s\<lparr>srv_thread := Thread_running\<rparr>))"

definition stop :: "'w server \<Rightarrow> 'w server" where
  "stop s = s\<lparr>srv_running := False\<rparr>"

definition set_data_receive_handler ::
  "(client_id \<Rightarrow> buffer \<Rightarrow> 'w \<Rightarrow> api_call list \<times> 'w) \<Rightarrow> 'w server \<Rightarrow> 'w server" where
  "set_data_receive_handler h s = s\<lparr>srv_on_data := Some h\<rparr>"

definition set_client_connect_handler ::
  "(client_id \<Rightarrow> 'w \<Rightarrow> api_call list \<times> 'w) \<Rightarrow> 'w server \<Rightarrow> 'w server" where
  "set_client_connect_handler h s = s\<lparr>srv_on_connect := Some h\<rparr>"

definition set_client_disconnect_handler ::
  "(client_id \<Rightarrow> 'w \<Rightarrow> api_call list \<times> 'w) \<Rightarrow> 'w server \<Rightarrow> 'w server" where
  "set_client_disconnect_handler h s = s\<lparr>srv_on_disconnect := Some h\<rparr>"

definition client_info_from_id :: "'w server \<Rightarrow> client_id \<Rightarrow> (nat \<times> client_info) option result" where
  "client_info_from_id s client_id = find_ptr (\<lambda>c. ci_id c = client_id) (srv_clients s)"

definition client_info_from_native_socket ::
  "'w server \<Rightarrow> socket_type \<Rightarrow> (nat \<times> client_info) option result" where
  "client_info_from_native_socket s socket_fd = find_ptr (\<lambda>c. ci_fd c = socket_fd) (srv_clients s)"

definition remove_client :: "client_id \<Rightarrow> 'w server \<Rightarrow> 'w server result" where
  "remove_client client_id s =
     rbind (client_info_from_id s client_id) (\<lambda>r.
       case r of
         None \<Rightarrow> Inr s
       | Some (i, c) \<Rightarrow>
           Inr (s\<lparr>srv_clients := (srv_clients s)[i := Some (c\<lparr>ci_connected := False\<rparr>)],
                  srv_has_disconnected := True\<rparr>))"

definition message_client ::
  "'w env \<Rightarrow> buffer \<Rightarrow> client_id \<Rightarrow> 'w server \<Rightarrow> 'w \<Rightarrow> ('w server \<times> 'w) run" where
  "message_client E msg client_id s w =
     dbind (Some (client_info_from_id s client_id)) (\<lambda>r.
       case r of
         None \<Rightarrow> Some (Inr (s, w))
       | Some (i, c) \<Rightarrow>
           if \<not> ci_connected c then Some (Inr (s, w))
           else dbind (send_ec E (ci_conn c) msg (srv_ec s) (sf_bits sf_none) w) (\<lambda>(_, ec, w1).
             let s1 = s\<lparr>srv_ec := ec\<rparr> in
             if ec_bool ec
             then dbind (Some (remove_client client_id s1)) (\<lambda>s2. Some (Inr (s2, w1)))
             else Some (Inr (s1, w1))))"

text \<open>The loop of \<open>message_all_clients\<close> runs over the pointers of the vector, which no call in its
  body changes, and reads the id, which no call changes either.\<close>

fun message_each ::
  "'w env \<Rightarrow> buffer \<Rightarrow> client_id \<Rightarrow> client_info option list \<Rightarrow> 'w server \<Rightarrow> 'w \<Rightarrow> ('w server \<times> 'w) run" where
  "message_each E msg exclude [] s w = Some (Inr (s, w))"
| "message_each E msg exclude (None # ps) s w = Some (Inl Null_deref)"
| "message_each E msg exclude (Some c # ps) s w =
     (if ci_id c = exclude then message_each E msg exclude ps s w
      else dbind (message_client E msg (ci_id c) s w) (\<lambda>(s1, w1). message_each E msg exclude ps s1 w1))"

definition message_all_clients ::
  "'w env \<Rightarrow> buffer \<Rightarrow> client_id \<Rightarrow> 'w server \<Rightarrow> 'w \<Rightarrow> ('w server \<times> 'w) run" where
  "message_all_clients E msg exclude s w = message_each E msg exclude (srv_clients s) s w"

section \<open>Callbacks\<close>

fun run_call :: "'w env \<Rightarrow> api_call \<Rightarrow> 'w server \<Rightarrow> 'w \<Rightarrow> ('w server \<times> 'w) run" where
  "run_call E (Call_message_client msg i) s w = message_client E msg i s w"
| "run_call E (Call_message_all_clients msg x) s w = message_all_clients E msg x s w"
| "run_call E (Call_remove_client i) s w = dbind (Some (remove_client i s)) (\<lambda>s1. Some (Inr (s1, w)))"
| "run_call E Call_stop s w = Some (Inr (stop s, w))"

fun run_calls :: "'w env \<Rightarrow> api_call list \<Rightarrow> 'w server \<Rightarrow> 'w \<Rightarrow> ('w server \<times> 'w) run" where
  "run_calls E [] s w = Some (Inr (s, w))"
| "run_calls E (a # as) s w = dbind (run_call E a s w) (\<lambda>(s1, w1). run_calls E as s1 w1)"

definition invoke ::
  "'w env \<Rightarrow> ('w \<Rightarrow> api_call list \<times> 'w) option \<Rightarrow> 'w server \<Rightarrow> 'w \<Rightarrow> ('w server \<times> 'w) run" where
  "invoke E h s w =
     (case h of None \<Rightarrow> Some (Inl Bad_function_call)
      | Some f \<Rightarrow> (case f w of (calls, w1) \<Rightarrow> run_calls E calls s w1))"

section \<open>Operations of the network thread\<close>

text \<open>One round of the loop of \<open>handle_incoming_connections_\<close> after a pending connection was seen.\<close>

definition accept_client :: "'w env \<Rightarrow> 'w server \<Rightarrow> 'w \<Rightarrow> ('w server \<times> 'w) run" where
  "accept_client E s w =
     (let new_client_id = next_available_id s;
          s1 = s\<lparr>next_available_id := next_available_id s + 1\<rparr>
      in dbind (Some (accept_ec E (srv_acceptor s1) (srv_ec s1) w)) (\<lambda>(conn, ec, w1).
        let s2 = s1\<lparr>srv_ec := ec\<rparr>;
            new_client = \<lparr>ci_id = new_client_id, ci_conn = conn, ci_fd = native_socket conn, ci_connected = False\<rparr>
        in if ec_bool ec
           then Some (Inr (s2\<lparr>next_available_id := next_available_id s2 - 1\<rparr>,
                           connection_destroy E (ci_conn new_client) w1))
           else let s3 = s2\<lparr>srv_clients := srv_clients s2 @ [Some (new_client\<lparr>ci_connected := True\<rparr>)],
                           srv_poll := add_socket (srv_poll s2) (ci_fd new_client)\<rparr>
                in invoke E (map_option (\<lambda>h. h new_client_id) (srv_on_connect s3)) s3 w1))"

partial_function (option) handle_incoming_connections ::
  "'w env \<Rightarrow> 'w server \<Rightarrow> 'w \<Rightarrow> ('w server \<times> 'w) run" where
  "handle_incoming_connections E s w =
     (if srv_running s
      then (case has_pending_connection E (srv_acceptor s) w of
              (pending, w1) \<Rightarrow>
                if \<not> pending then Some (Inr (s, w1))
                else dbind (accept_client E s w1) (\<lambda>r. handle_incoming_connections E (fst r) (snd r)))
      else Some (Inr (s, w)))"

text \<open>The body of the event loop of \<open>handle_incoming_messages_\<close>.\<close>

definition handle_event ::
  "'w env \<Rightarrow> socket_status_info \<Rightarrow> 'w server \<Rightarrow> 'w \<Rightarrow> ('w server \<times> 'w) run" where
  "handle_event E ev s w =
     dbind (Some (client_info_from_native_socket s (si_fd ev))) (\<lambda>r.
       case r of
         None \<Rightarrow> Some (Inr (s, w))
       | Some (i, c) \<Rightarrow>
           if bm_and E (si_status ev) (bm_or E (ss_bits ss_error) (ss_bits ss_hung_up)) \<noteq> 0
           then dbind (Some (remove_client (ci_id c) s)) (\<lambda>s1. Some (Inr (s1, w)))
           else if bm_and E (si_status ev) (ss_bits ss_readable) \<noteq> 0
           then (case receive_max_ec E (ci_conn c) (srv_ec s) (rf_bits rf_none) w of
                   (data, ec, conn, w1) \<Rightarrow>
                     (let s1 = s\<lparr>srv_ec := ec, srv_clients := (srv_clients s)[i := Some (c\<lparr>ci_conn := conn\<rparr>)]\<rparr>
                      in if ec_bool ec \<or> buffer_size data = 0
                         then dbind (Some (remove_client (ci_id c) s1)) (\<lambda>s2. Some (Inr (s2, w1)))
                         else invoke E (map_option (\<lambda>h. h (ci_id c) data) (srv_on_data s1)) s1 w1))
           else Some (Inr (s, w)))"

fun handle_events ::
  "'w env \<Rightarrow> socket_status_info list \<Rightarrow> 'w server \<Rightarrow> 'w \<Rightarrow> ('w server \<times> 'w) run" where
  "handle_events E [] s w = Some (Inr (s, w))"
| "handle_events E (ev # evs) s w =
     (if \<not> srv_running s then Some (Inr (s, w))
      else dbind (handle_event E ev s w) (\<lambda>(s1, w1). handle_events E evs s1 w1))"

definition handle_incoming_messages :: "'w env \<Rightarrow> 'w server \<Rightarrow> 'w \<Rightarrow> ('w server \<times> 'w) run" where
  "handle_incoming_messages E s w =
     (case pg_poll E (srv_poll s) 0 w of
        (events, g, w1) \<Rightarrow> handle_events E events (s\<lparr>srv_poll := g\<rparr>) w1)"

text \<open>\<open>std::remove_if\<close> on the vector of owning pointers. After the first element to remove is found,
  the loop moves every element to keep down to the position \<open>result\<close>. Moving a \<open>unique_ptr\<close>
  destroys what the target owned and leaves the source null.\<close>

definition destroy_client :: "'w env \<Rightarrow> client_info option \<Rightarrow> 'w \<Rightarrow> 'w" where
  "destroy_client E p w = (case p of None \<Rightarrow> w | Some c \<Rightarrow> connection_destroy E (ci_conn c) w)"

function remove_if_loop ::
  "'w env \<Rightarrow> client_info option list \<Rightarrow> nat \<Rightarrow> nat \<Rightarrow> 'w \<Rightarrow> (client_info option list \<times> nat \<times> 'w) result" where
  "remove_if_loop E ps res first w =
     (if first < length ps
      then (case ps ! first of
              None \<Rightarrow> Inl Null_deref
            | Some c \<Rightarrow>
                if ci_connected c
                then remove_if_loop E ((ps[res := Some c])[first := None]) (Suc res) (Suc first)
                       (destroy_client E (ps ! res) w)
                else remove_if_loop E ps res (Suc first) w)
      else Inr (ps, res, w))"
  by pat_completeness auto
termination
  by (relation "measure (\<lambda>(E, ps, res, first, w). length ps - first)") auto

declare remove_if_loop.simps [simp del]

definition remove_if_disconnected ::
  "'w env \<Rightarrow> client_info option list \<Rightarrow> 'w \<Rightarrow> (client_info option list \<times> nat \<times> 'w) result" where
  "remove_if_disconnected E ps w =
     rbind (find_ptr (\<lambda>c. \<not> ci_connected c) ps) (\<lambda>r.
       case r of None \<Rightarrow> Inr (ps, length ps, w)
       | Some (i, _) \<Rightarrow> remove_if_loop E ps i (Suc i) w)"

fun disconnect_loop :: "'w env \<Rightarrow> nat list \<Rightarrow> 'w server \<Rightarrow> 'w \<Rightarrow> ('w server \<times> 'w) run" where
  "disconnect_loop E [] s w = Some (Inr (s, w))"
| "disconnect_loop E (it # its) s w =
     (if it < length (srv_clients s)
      then (case srv_clients s ! it of
              None \<Rightarrow> Some (Inl Null_deref)
            | Some c \<Rightarrow>
                (case disconnect E (ci_conn c) w of
                   (conn, w1) \<Rightarrow>
                     (let s1 = s\<lparr>srv_poll := remove_socket (srv_poll s) (ci_fd c),
                                 srv_clients := (srv_clients s)[it := Some (c\<lparr>ci_conn := conn\<rparr>)]\<rparr>
                      in dbind (invoke E (map_option (\<lambda>h. h (ci_id c)) (srv_on_disconnect s1)) s1 w1)
                           (\<lambda>(s2, w2). disconnect_loop E its s2 w2))))
      else Some (Inl Out_of_bounds))"

definition handle_disconnected_clients :: "'w env \<Rightarrow> 'w server \<Rightarrow> 'w \<Rightarrow> ('w server \<times> 'w) run" where
  "handle_disconnected_clients E s w =
     (if \<not> srv_has_disconnected s then Some (Inr (s, w))
      else dbind (Some (remove_if_disconnected E (srv_clients s) w)) (\<lambda>(ps, first_disconnected, w1).
        let s1 = s\<lparr>srv_clients := ps\<rparr> in
        dbind (disconnect_loop E [first_disconnected..<length ps] s1 w1) (\<lambda>(s2, w2).
          Some (Inr (s2\<lparr>srv_clients := take first_disconnected (srv_clients s2)\<rparr>,
                     foldl (\<lambda>w p. destroy_client E p w) w2 (drop first_disconnected (srv_clients s2)))))))"

text \<open>One round of the main loop of the network thread, the loop, and the thread function. The time
  the thread sleeps between two rounds has no effect on the state.\<close>

definition tick :: "'w env \<Rightarrow> 'w server \<Rightarrow> 'w \<Rightarrow> ('w server \<times> 'w) run" where
  "tick E s w =
     dbind (handle_incoming_connections E s w) (\<lambda>(s1, w1).
     dbind (handle_incoming_messages E s1 w1) (\<lambda>(s2, w2).
       handle_disconnected_clients E s2 w2))"

partial_function (option) server_loop :: "'w env \<Rightarrow> 'w server \<Rightarrow> 'w \<Rightarrow> ('w server \<times> 'w) run" where
  "server_loop E s w =
     (if srv_running s then dbind (tick E s w) (\<lambda>r. server_loop E (fst r) (snd r))
      else Some (Inr (s, w)))"

definition network_thread_start :: "'w env \<Rightarrow> 'w server \<Rightarrow> 'w \<Rightarrow> ('w server \<times> 'w) result" where
  "network_thread_start E s w =
     (let s1 = s\<lparr>srv_running := True\<rparr> in
      rbind (resolve_ec E any_address (to_string (unat (srv_port s1))) (srv_ec s1) w) (\<lambda>(endpoints, ec, w1).
        if ec_bool ec then Inl Exit_failure
        else rbind (open_ec E (srv_acceptor s1) endpoints ec (ac_bits ac_reuse_address) w1)
          (\<lambda>(_, ec2, acc, w2).
            if ec_bool ec2 then Inl Exit_failure
            else Inr (s1\<lparr>srv_ec := ec2, srv_acceptor := acc\<rparr>, w2))))"

definition network_thread_function :: "'w env \<Rightarrow> 'w server \<Rightarrow> 'w \<Rightarrow> ('w server \<times> 'w) run" where
  "network_thread_function E s w =
     dbind (Some (network_thread_start E s w)) (\<lambda>(s1, w1).
     dbind (server_loop E s1 w1) (\<lambda>(s2, w2).
       case close_acceptor E (srv_acceptor s2) w2 of
         (acc, w3) \<Rightarrow> Some (Inr (s2\<lparr>srv_acceptor := acc, srv_thread := Thread_finished\<rparr>, w3))))"

text \<open>The destructor joins the network thread if there is one. In the model the thread does all its work
  at that point: one of the schedules the code allows. Then the members are destroyed in the
  reverse order of their declaration: the acceptor, and the clients.\<close>

definition server_destroy :: "'w env \<Rightarrow> 'w server \<Rightarrow> 'w \<Rightarrow> 'w run" where
  "server_destroy E s w =
     dbind (if joinable (srv_thread s) \<and> srv_thread s \<noteq> Thread_finished then network_thread_function E s w else Some (Inr (s, w)))
       (\<lambda>(s1, w1). Some (Inr (foldl (\<lambda>w p. destroy_client E p w) (acceptor_destroy E (srv_acceptor s1) w1) (srv_clients s1))))"

definition is_running :: "'w server \<Rightarrow> bool" where
  "is_running s = srv_running s"

end
