(* ===== verification/Server_Lemmas.thy ===== *)
theory Server_Lemmas
  imports Servers
begin

text \<open>
  The library of facts about the server: the two table lookups as instances of one interface
  (\<open>client_lookup\<close>), predicates that survive every call a handler can make (\<open>api_invariant\<close>),
  and the behaviour of the removal of clients. The properties of the server are in the theory \<open>Server_Properties\<close>.
\<close>

unbundle bit_operations_syntax

section \<open>Looking up clients\<close>

definition infos :: "client_info option list \<Rightarrow> client_info list" where
  "infos ps = List.map_filter (\<lambda>p. p) ps"

lemma infos_simps [simp]:
  "infos [] = []" "infos (None # ps) = infos ps" "infos (Some c # ps) = c # infos ps"
  by (simp_all add: infos_def List.map_filter_def)

lemma infos_append [simp]: "infos (ps @ qs) = infos ps @ infos qs"
  by (simp add: infos_def List.map_filter_def)

lemma infos_map_Some [simp]: "infos (map Some cs) = cs"
  by (induction cs) auto

lemma set_infos: "c \<in> set (infos ps) \<longleftrightarrow> Some c \<in> set ps"
  by (force simp: infos_def List.map_filter_def)

lemma map_Some_infos: "None \<notin> set ps \<Longrightarrow> map Some (infos ps) = ps"
proof (induction ps)
  case (Cons p ps)
  then show ?case by (cases p) auto
qed simp

locale client_lookup =
  fixes key :: "client_info \<Rightarrow> 'k"
    and lookup :: "'w server \<Rightarrow> 'k \<Rightarrow> (nat \<times> client_info) option result"
  assumes lookup_eq: "lookup s k = find_ptr (\<lambda>c. key c = k) (srv_clients s)"
begin

lemma found: "lookup s k = Inr (Some (i, c)) \<Longrightarrow>
   i < length (srv_clients s) \<and> srv_clients s ! i = Some c \<and> key c = k"
  by (auto simp: lookup_eq dest: find_ptr_SomeD)

lemma absent: "lookup s k = Inr None \<Longrightarrow> Some c \<in> set (srv_clients s) \<Longrightarrow> key c \<noteq> k"
  by (auto simp: lookup_eq dest: find_ptr_NoneD)

lemma total: "None \<notin> set (srv_clients s) \<Longrightarrow> \<exists>r. lookup s k = Inr r"
  by (simp add: lookup_eq find_ptr_total)

lemma unique:
  assumes "None \<notin> set (srv_clients s)" and "distinct (map key (infos (srv_clients s)))"
    and "i < length (srv_clients s)" and "srv_clients s ! i = Some c"
  shows "lookup s (key c) = Inr (Some (i, c))"
proof -
  have "find_ptr (\<lambda>d. key d = key c) ps = Inr (Some (i, c))"
    if "None \<notin> set ps" "distinct (map key (infos ps))" "i < length ps" "ps ! i = Some c" for ps
    using that
  proof (induction ps arbitrary: i)
    case (Cons p ps)
    then obtain d where p: "p = Some d" by (cases p) auto
    show ?case
    proof (cases i)
      case 0
      with Cons p show ?thesis by simp
    next
      case (Suc j)
      then have "Some c \<in> set ps" using Cons.prems by (auto simp: in_set_conv_nth)
      then have "key d \<noteq> key c" using Cons.prems p by (force simp: set_infos)
      moreover have "find_ptr (\<lambda>d. key d = key c) ps = Inr (Some (j, c))"
        using Cons Suc p by simp
      ultimately show ?thesis using p Suc by simp
    qed
  qed simp
  with assms show ?thesis by (simp add: lookup_eq)
qed

end

interpretation by_id: client_lookup ci_id client_info_from_id
  by unfold_locales (simp add: client_info_from_id_def)

interpretation by_fd: client_lookup ci_fd client_info_from_native_socket
  by unfold_locales (simp add: client_info_from_native_socket_def)

section \<open>Predicates kept by the calls of a handler\<close>

lemma message_client_cases:
  assumes "message_client E msg k s w = Some (Inr (s', w'))"
  obtains (none) "s' = s" "w' = w"
  | (sent) i c ec where "client_info_from_id s k = Inr (Some (i, c))" "ci_connected c"
      "send_ec E (ci_conn c) msg (srv_ec s) 0 w = Some (Inr ((), ec, w'))"
      "\<not> ec_bool ec" "s' = s\<lparr>srv_ec := ec\<rparr>"
  | (failed) i c ec where "client_info_from_id s k = Inr (Some (i, c))" "ci_connected c"
      "send_ec E (ci_conn c) msg (srv_ec s) 0 w = Some (Inr ((), ec, w'))"
      "ec_bool ec" "remove_client k (s\<lparr>srv_ec := ec\<rparr>) = Inr s'"
proof -
  obtain r where r: "client_info_from_id s k = Inr r"
    using assms by (auto simp: message_client_def bind_simps)
  show ?thesis
  proof (cases r)
    case None
    with assms r none show ?thesis by (simp add: message_client_def)
  next
    case (Some p)
    obtain i c where p: "p = (i, c)" by (cases p)
    show ?thesis
    proof (cases "ci_connected c")
      case False
      with assms r Some p none show ?thesis by (simp add: message_client_def)
    next
      case True
      with assms r Some p obtain ec w1 where snd: "send_ec E (ci_conn c) msg (srv_ec s) 0 w = Some (Inr ((), ec, w1))"
        by (auto simp: message_client_def bind_simps)
      show ?thesis
        using assms r Some p True snd sent [of i c ec] failed [of i c ec]
        by (cases "ec_bool ec") (auto simp: message_client_def Let_def bind_simps)
    qed
  qed
qed

definition mark :: "nat \<Rightarrow> client_info \<Rightarrow> 'w server \<Rightarrow> 'w server" where
  "mark i c s = s\<lparr>srv_clients := (srv_clients s)[i := Some (c\<lparr>ci_connected := False\<rparr>)],
                  srv_has_disconnected := True\<rparr>"

text \<open>A predicate \<open>I\<close> that survives every call the predicate \<open>ok\<close> allows a handler to make.\<close>

locale api_invariant =
  fixes I :: "'w server \<Rightarrow> bool" and ok :: "api_call \<Rightarrow> bool"
  assumes I_ec: "I s \<Longrightarrow> I (s\<lparr>srv_ec := ec\<rparr>)"
    and I_mark: "I s \<Longrightarrow> i < length (srv_clients s) \<Longrightarrow> srv_clients s ! i = Some c \<Longrightarrow> I (mark i c s)"
    and I_stop: "I s \<Longrightarrow> ok Call_stop \<Longrightarrow> I (stop s)"
begin

lemma remove_client_inv: "I s \<Longrightarrow> remove_client k s = Inr s' \<Longrightarrow> I s'"
  by (auto simp: remove_client_def bind_simps mark_def [symmetric] intro!: I_mark
      dest!: by_id.found split: option.splits)

lemma message_client_inv: "I s \<Longrightarrow> message_client E msg k s w = Some (Inr (s', w')) \<Longrightarrow> I s'"
  by (erule message_client_cases) (auto intro: I_ec remove_client_inv)

lemma message_each_inv: "I s \<Longrightarrow> message_each E msg x ps s w = Some (Inr (s', w')) \<Longrightarrow> I s'"
  by (induction E msg x ps s w rule: message_each.induct)
    (auto simp: bind_simps dest: message_client_inv split: if_splits)

lemma run_call_inv: "I s \<Longrightarrow> ok a \<Longrightarrow> run_call E a s w = Some (Inr (s', w')) \<Longrightarrow> I s'"
  by (cases a) (auto simp: message_all_clients_def bind_simps
      dest: message_client_inv message_each_inv remove_client_inv I_stop)

lemma run_calls_inv: "I s \<Longrightarrow> list_all ok as \<Longrightarrow> run_calls E as s w = Some (Inr (s', w')) \<Longrightarrow> I s'"
  by (induction as arbitrary: s w) (auto simp: bind_simps dest: run_call_inv)

lemma invoke_inv:
  "I s \<Longrightarrow> (\<And>f w. h = Some f \<Longrightarrow> list_all ok (fst (f w))) \<Longrightarrow> invoke E h s w = Some (Inr (s', w')) \<Longrightarrow> I s'"
  by (auto simp: invoke_def dest: run_calls_inv split: option.splits prod.splits) (metis fst_conv run_calls_inv)

end

text \<open>A null pointer in the table stays null, and the table keeps its length.\<close>

interpretation null_at: api_invariant "\<lambda>s. j < length (srv_clients s) \<and> srv_clients s ! j = None" "\<lambda>_. True" for j
  by unfold_locales (auto simp: mark_def stop_def nth_list_update)

section \<open>Removing clients from the table\<close>

lemma remove_if_loop_none_connected:
  assumes "\<forall>j. first \<le> j \<and> j < length ps \<longrightarrow> (\<exists>c. ps ! j = Some c \<and> \<not> ci_connected c)"
  shows "remove_if_loop E ps res first w = Inr (ps, res, w)"
  using assms
proof (induction E ps res first w rule: remove_if_loop.induct)
  case (1 E ps res first w)
  show ?case
  proof (cases "first < length ps")
    case True
    then obtain c where "ps ! first = Some c" "\<not> ci_connected c" using "1.prems" by blast
    moreover from this True have "remove_if_loop E ps res (Suc first) w = Inr (ps, res, w)"
      using "1.IH"(2) "1.prems" by simp
    ultimately show ?thesis using True by (simp add: remove_if_loop.simps [of E ps res first])
  qed (simp add: remove_if_loop.simps [of E ps res first])
qed

text \<open>A keeper behind the position \<open>result\<close> is moved down and leaves a null pointer that is still
  there at the end, at or behind the new end of the table.\<close>

lemma remove_if_loop_leaves_null:
  assumes "remove_if_loop E ps res first w = Inr (qs, r, w')" and "res < first"
    and "\<exists>j. first \<le> j \<and> j < length ps \<and> (\<exists>c. ps ! j = Some c \<and> ci_connected c)
       \<or> res \<le> j \<and> j < first \<and> j < length ps \<and> ps ! j = None"
  shows "length qs = length ps \<and> (\<exists>j. r \<le> j \<and> j < length qs \<and> qs ! j = None)"
  using assms
proof (induction E ps res first w rule: remove_if_loop.induct)
  case (1 E ps res first w)
  show ?case
  proof (cases "first < length ps")
    case False
    with "1.prems" show ?thesis by (auto simp: remove_if_loop.simps [of E ps res first])
  next
    case True
    with "1.prems"(1) obtain c where c: "ps ! first = Some c"
      by (cases "ps ! first") (auto simp: remove_if_loop.simps [of E ps res first])
    show ?thesis
    proof (cases "ci_connected c")
      case keep: True
      let ?ps = "(ps[res := Some c])[first := None]"
      have "remove_if_loop E ?ps (Suc res) (Suc first) (destroy_client E (ps ! res) w) = Inr (qs, r, w')"
        using "1.prems"(1) True c keep by (simp add: remove_if_loop.simps [of E ps res first])
      moreover have "Suc res \<le> first \<and> first < Suc first \<and> first < length ?ps \<and> ?ps ! first = None"
        using True "1.prems"(2) by simp
      ultimately show ?thesis
        using "1.IH"(1) [OF True c keep] "1.prems"(2) by (metis Suc_less_eq length_list_update)
    next
      case drop: False
      have "remove_if_loop E ps res (Suc first) w = Inr (qs, r, w')"
        using "1.prems"(1) True c drop by (simp add: remove_if_loop.simps [of E ps res first])
      moreover have "\<exists>j. Suc first \<le> j \<and> j < length ps \<and> (\<exists>c. ps ! j = Some c \<and> ci_connected c)
         \<or> res \<le> j \<and> j < Suc first \<and> j < length ps \<and> ps ! j = None"
        using "1.prems"(3) c drop by (metis Suc_leI le_neq_implies_less less_Suc_eq option.inject)
      ultimately show ?thesis
        using "1.IH"(2) [OF True c drop] "1.prems"(2) by auto
    qed
  qed
qed

text \<open>In front of its new end the table holds exactly the clients to keep, in order; the loop does not
  fault.\<close>

abbreviation keepers :: "client_info option list \<Rightarrow> client_info option list" where
  "keepers ps \<equiv> map Some (filter ci_connected (infos ps))"

lemma remove_if_loop_filter:
  assumes "None \<notin> set (drop first ps)" and "res < first" and "res \<le> length ps"
  shows "\<exists>qs r w'. remove_if_loop E ps res first w = Inr (qs, r, w') \<and> length qs = length ps
    \<and> r \<le> length ps \<and> take r qs = take res ps @ keepers (drop first ps)"
  using assms
proof (induction E ps res first w rule: remove_if_loop.induct)
  case (1 E ps res first w)
  show ?case
  proof (cases "first < length ps")
    case False
    with "1.prems" show ?thesis by (simp add: remove_if_loop.simps [of E ps res first])
  next
    case True
    then have d: "drop first ps = ps ! first # drop (Suc first) ps" by (simp add: Cons_nth_drop_Suc)
    then obtain c where c: "ps ! first = Some c" and n: "None \<notin> set (drop (Suc first) ps)"
      using "1.prems"(1) by (cases "ps ! first") auto
    show ?thesis
    proof (cases "ci_connected c")
      case keep: True
      let ?ps = "(ps[res := Some c])[first := None]"
      have "drop (Suc first) ?ps = drop (Suc first) ps" "take (Suc res) ?ps = take res ps @ [Some c]"
        using "1.prems"(2) True by (simp_all add: take_Suc_conv_app_nth)
      with "1.IH"(1) [OF True c keep] n "1.prems"(2) True show ?thesis
        by (simp add: remove_if_loop.simps [of E ps res first] c d keep)
    next
      case drop: False
      with "1.IH"(2) [OF True c] n "1.prems"(2,3) True show ?thesis
        by (simp add: remove_if_loop.simps [of E ps res first] c d)
    qed
  qed
qed

lemma remove_if_filter:
  assumes "None \<notin> set ps"
  shows "\<exists>qs r w'. remove_if_disconnected E ps w = Inr (qs, r, w') \<and> length qs = length ps
    \<and> r \<le> length ps \<and> take r qs = keepers ps"
proof -
  obtain x where x: "find_ptr (\<lambda>c. \<not> ci_connected c) ps = Inr x" using find_ptr_total [OF assms] by blast
  show ?thesis
  proof (cases x)
    case None
    then have "filter ci_connected (infos ps) = infos ps"
      using find_ptr_NoneD [of "\<lambda>c. \<not> ci_connected c" ps] x by (auto simp: filter_id_conv set_infos)
    with None x assms show ?thesis by (simp add: remove_if_disconnected_def map_Some_infos)
  next
    case (Some p)
    then obtain i c where p: "p = (i, c)" and f: "find_ptr (\<lambda>c. \<not> ci_connected c) ps = Inr (Some (i, c))"
      using x by (cases p) auto
    have i: "i < length ps" "ps ! i = Some c" "\<not> ci_connected c" using find_ptr_SomeD [OF f] by auto
    have ps: "ps = take i ps @ Some c # drop (Suc i) ps" using i by (metis id_take_nth_drop)
    have n: "None \<notin> set (take i ps)" "None \<notin> set (drop (Suc i) ps)"
      using assms by (auto dest: in_set_takeD in_set_dropD)
    have "ci_connected d" if d: "d \<in> set (infos (take i ps))" for d
    proof -
      obtain k where "k < i" "ps ! k = Some d"
        using d [unfolded set_infos] i(1) by (auto simp: in_set_conv_nth)
      with find_ptr_first [OF f, of k] show ?thesis by simp
    qed
    then have "take i ps = keepers (take i ps)"
      using n(1) by (simp add: filter_id_conv [THEN iffD2] map_Some_infos)
    moreover have "keepers ps = keepers (take i ps) @ keepers (drop (Suc i) ps)"
      using i(3) by (subst ps) (simp del: append_take_drop_id)
    ultimately show ?thesis
      using remove_if_loop_filter [OF n(2), of i E w] i(1) x Some p by (simp add: remove_if_disconnected_def)
  qed
qed

text \<open>So a table without null pointers either comes back unchanged, or with one behind its new end.\<close>

lemma remove_if_unchanged_or_null:
  assumes "None \<notin> set ps" and "remove_if_disconnected E ps w = Inr (qs, r, w')"
  shows "(qs = ps \<and> w' = w) \<or> (\<exists>j. r \<le> j \<and> j < length qs \<and> qs ! j = None)"
proof -
  obtain x where x: "find_ptr (\<lambda>c. \<not> ci_connected c) ps = Inr x"
    using assms(2) by (auto simp: remove_if_disconnected_def bind_simps)
  show ?thesis
  proof (cases x)
    case None
    with assms(2) x show ?thesis by (simp add: remove_if_disconnected_def)
  next
    case (Some p)
    then obtain i where lp: "remove_if_loop E ps i (Suc i) w = Inr (qs, r, w')"
      using assms(2) x by (cases p) (simp add: remove_if_disconnected_def)
    show ?thesis
    proof (cases "\<exists>j. Suc i \<le> j \<and> j < length ps \<and> (\<exists>c. ps ! j = Some c \<and> ci_connected c)")
      case True
      then show ?thesis using remove_if_loop_leaves_null [OF lp] by blast
    next
      case False
      then have "remove_if_loop E ps i (Suc i) w = Inr (ps, i, w)"
        using assms(1) by (intro remove_if_loop_none_connected) (metis nth_mem option.exhaust)
      with lp show ?thesis by simp
    qed
  qed
qed

lemma disconnect_loop_null:
  assumes "j \<in> set its" and "j < length (srv_clients s)" and "srv_clients s ! j = None"
  shows "disconnect_loop E its s w \<noteq> Some (Inr (s', w'))"
  using assms
proof (induction its arbitrary: s w)
  case (Cons it its)
  show ?case
  proof
    assume run: "disconnect_loop E (it # its) s w = Some (Inr (s', w'))"
    then have it: "it < length (srv_clients s)" by (auto split: if_splits)
    with run obtain c where c: "srv_clients s ! it = Some c" by (auto split: option.splits)
    with Cons.prems have "it \<noteq> j" by auto
    obtain conn w1 where d: "disconnect E (ci_conn c) w = (conn, w1)" by fastforce
    let ?s = "s\<lparr>srv_poll := remove_socket (srv_poll s) (ci_fd c),
               srv_clients := (srv_clients s)[it := Some (c\<lparr>ci_conn := conn\<rparr>)]\<rparr>"
    from run it c d obtain s2 w2
      where inv: "invoke E (map_option (\<lambda>h. h (ci_id c)) (srv_on_disconnect ?s)) ?s w1 = Some (Inr (s2, w2))"
        and rest: "disconnect_loop E its s2 w2 = Some (Inr (s', w'))"
      by (auto simp: bind_simps Let_def)
    have "j < length (srv_clients s2) \<and> srv_clients s2 ! j = None"
      using Cons.prems \<open>it \<noteq> j\<close> by (intro null_at.invoke_inv [OF _ _ inv]) (simp_all add: list_all_iff)
    with Cons \<open>it \<noteq> j\<close> rest show False by auto
  qed
qed simp

text \<open>What the loop over the clients to remove does when their handler makes no calls: every
  connection is released in turn and the handler is told.\<close>

definition released :: "client_info \<Rightarrow> client_info" where
  "released c = (if is_connected (ci_conn c) then c\<lparr>ci_conn := connection_new\<rparr> else c)"

definition leave :: "'w env \<Rightarrow> (client_id \<Rightarrow> 'w \<Rightarrow> api_call list \<times> 'w) \<Rightarrow> 'w \<Rightarrow> client_info \<Rightarrow> 'w" where
  "leave E h w c = snd (h (ci_id c) (snd (disconnect E (ci_conn c) w)))"

lemma disconnect_released: "fst (disconnect E (ci_conn c) w) = ci_conn (released c)"
  by (simp add: released_def is_connected_def conn_owner.release_open conn_owner.release_idle)

lemma destroy_released: "destroy_client E (Some (released c)) w = w"
  by (simp add: destroy_client_def connection_destroy_def released_def)

lemma update_released: "c\<lparr>ci_conn := ci_conn (released c)\<rparr> = released c"
  by (simp add: released_def)

lemma disconnect_loop_quiet:
  assumes "srv_on_disconnect s = Some h" and quiet: "\<And>k w. fst (h k w) = []"
    and "srv_clients s = map Some (pre @ gone)"
  shows "disconnect_loop E [length pre..<length pre + length gone] s w =
    Some (Inr (s\<lparr>srv_poll := foldl remove_socket (srv_poll s) (map ci_fd gone),
                 srv_clients := map Some (pre @ map released gone)\<rparr>, foldl (leave E h) w gone))"
  using assms(1,3)
proof (induction gone arbitrary: pre s w)
  case Nil
  then show ?case by simp
next
  case (Cons c gone)
  let ?n = "length pre"
  let ?s = "s\<lparr>srv_poll := remove_socket (srv_poll s) (ci_fd c),
             srv_clients := map Some ((pre @ [released c]) @ gone)\<rparr>"
  obtain conn w1 where d: "disconnect E (ci_conn c) w = (conn, w1)" by fastforce
  then have conn: "conn = ci_conn (released c)" using disconnect_released [of E c w] by simp
  have at: "srv_clients s ! ?n = Some c" "?n < length (srv_clients s)"
    "(srv_clients s)[?n := Some (c\<lparr>ci_conn := conn\<rparr>)] = srv_clients ?s"
    unfolding Cons.prems(2) conn update_released by (simp_all add: nth_append list_update_append)
  have call: "h (ci_id c) w1 = ([], leave E h w c)"
    using quiet [of "ci_id c" w1] d by (cases "h (ci_id c) w1") (simp add: leave_def)
  have "[?n..<?n + length (c # gone)] = ?n # [length (pre @ [released c])..<length (pre @ [released c]) + length gone]"
    by (simp add: upt_conv_Cons del: upt_Suc)
  moreover have "disconnect_loop E [length (pre @ [released c])..<length (pre @ [released c]) + length gone] ?s (leave E h w c)
      = Some (Inr (?s\<lparr>srv_poll := foldl remove_socket (srv_poll ?s) (map ci_fd gone),
                 srv_clients := map Some ((pre @ [released c]) @ map released gone)\<rparr>, foldl (leave E h) (leave E h w c) gone))"
    by (rule Cons.IH) (simp_all add: Cons.prems)
  ultimately show ?case
    using at d Cons.prems(1) call by (simp add: invoke_def Let_def)
qed

section \<open>Identifiers\<close>

text \<open>The invariant of the client table: no null pointers, distinct identifiers, each at least 1 and
  below the next one to be given out, and the scan flag set if a client is marked.\<close>

definition id_inv :: "'w server \<Rightarrow> bool" where
  "id_inv s \<longleftrightarrow> None \<notin> set (srv_clients s) \<and> distinct (map ci_id (infos (srv_clients s)))
     \<and> (\<forall>k \<in> set (map ci_id (infos (srv_clients s))). 1 \<le> k \<and> k < next_available_id s)
     \<and> ((\<exists>c \<in> set (infos (srv_clients s)). \<not> ci_connected c) \<longrightarrow> srv_has_disconnected s)"

lemma infos_update:
  assumes "None \<notin> set ps" and "i < length ps"
  shows "infos (ps[i := Some c]) = (infos ps)[i := c]"
proof -
  have "map Some ((infos ps)[i := c]) = (map Some (infos ps))[i := Some c]"
    by (simp add: map_update)
  then have "ps[i := Some c] = map Some ((infos ps)[i := c])"
    using assms(1) by (simp add: map_Some_infos)
  then show ?thesis by simp
qed

lemma length_infos: "None \<notin> set ps \<Longrightarrow> length (infos ps) = length ps"
  by (metis length_map map_Some_infos)

lemma nth_infos: "None \<notin> set ps \<Longrightarrow> i < length ps \<Longrightarrow> ps ! i = Some (infos ps ! i)"
  by (metis length_infos map_Some_infos nth_map)

lemma not_null_update: "None \<notin> set ps \<Longrightarrow> None \<notin> set (ps[i := Some c])"
  using set_update_subset_insert by fastforce

text \<open>Replacing a client's record by one with the same identifier keeps the identifiers.\<close>

lemma ids_update:
  assumes "None \<notin> set ps" and "i < length ps" and "ps ! i = Some c" and "ci_id c' = ci_id c"
  shows "map ci_id (infos (ps[i := Some c'])) = map ci_id (infos ps)"
proof -
  have "ci_id (infos ps ! i) = ci_id c"
    using nth_infos [OF assms(1,2)] assms(3) by simp
  then show ?thesis
    using assms by (simp add: infos_update map_update list_update_same_conv length_infos)
qed

lemma id_inv_mark:
  assumes "id_inv s" and "i < length (srv_clients s)" and "srv_clients s ! i = Some c"
  shows "id_inv (mark i c s)"
proof -
  let ?ps = "srv_clients s" and ?c = "c\<lparr>ci_connected := False\<rparr>"
  have n: "None \<notin> set ?ps" using assms(1) by (simp add: id_inv_def)
  have "map ci_id (infos (?ps[i := Some ?c])) = map ci_id (infos ?ps)"
    by (rule ids_update [OF n assms(2,3)]) simp
  then show ?thesis
    using assms(1) not_null_update [OF n] by (simp add: id_inv_def mark_def del: set_map)
qed

interpretation id_api: api_invariant id_inv "\<lambda>_. True"
  by unfold_locales (simp_all only: id_inv_mark, simp_all add: id_inv_def stop_def)

lemma id_inv_add:
  assumes "id_inv s" and "next_available_id s + 1 \<noteq> 0" and "1 \<le> next_available_id s"
    and "ci_id c = next_available_id s" and "ci_connected c"
  shows "id_inv (s\<lparr>next_available_id := next_available_id s + 1, srv_ec := ec,
                   srv_clients := srv_clients s @ [Some c], srv_poll := g\<rparr>)"
proof -
  have lt: "next_available_id s < next_available_id s + 1"
    using assms(2) inc_less_eq_triv_imp [of "next_available_id s"] by (metis linorder_not_less right_minus add.commute)
  then have "x < next_available_id s + 1" if "x < next_available_id s" for x
    using that by (rule less_trans [rotated])
  then show ?thesis
    using assms lt by (auto simp: id_inv_def)
qed

section \<open>Messages\<close>

lemma remove_client_found:
  "client_info_from_id s k = Inr (Some (i, c)) \<Longrightarrow> remove_client k (s\<lparr>srv_ec := ec\<rparr>) = Inr (mark i c (s\<lparr>srv_ec := ec\<rparr>))"
  by (simp add: remove_client_def client_info_from_id_def mark_def)

text \<open>A message to a connected client under the contract of the kernel's \<open>send\<close>.\<close>

lemma message_client_send:
  assumes "send_contract E" and "client_info_from_id s k = Inr (Some (i, c))" and "ci_connected c"
    and "is_connected (ci_conn c)" and "0 < buffer_size msg" and "buffer_size msg < 2 ^ 64"
  obtains ec w' u where
    "message_client (traced E) msg k s (w, t) =
      Some (Inr (if ec_bool ec then mark i c (s\<lparr>srv_ec := ec\<rparr>) else s\<lparr>srv_ec := ec\<rparr>, (w', t @ u)))"
    "send_events_ok (conn_socket (ci_conn c)) (translate_send_flags E 0) u"
    "delivered (buf_data msg) (srv_ec s) ec (sent_on (conn_socket (ci_conn c)) u)"
proof -
  obtain ec w' u where run: "send_ec (traced E) (ci_conn c) msg (srv_ec s) 0 (w, t) = Some (Inr ((), ec, (w', t @ u)))"
    and ok: "send_events_ok (conn_socket (ci_conn c)) (translate_send_flags E 0) u"
      "delivered (buf_data msg) (srv_ec s) ec (sent_on (conn_socket (ci_conn c)) u)"
    using send_delivers_all [OF assms(1,4,5,6), of "srv_ec s" 0 w t] by blast
  have "message_client (traced E) msg k s (w, t) =
      Some (Inr (if ec_bool ec then mark i c (s\<lparr>srv_ec := ec\<rparr>) else s\<lparr>srv_ec := ec\<rparr>, (w', t @ u)))"
    using assms(2,3) run by (simp add: message_client_def remove_client_found Let_def)
  from that [OF this ok] show ?thesis .
qed

fun message_ids :: "'w env \<Rightarrow> buffer \<Rightarrow> client_id list \<Rightarrow> 'w server \<Rightarrow> 'w \<Rightarrow> ('w server \<times> 'w) run" where
  "message_ids E msg [] s w = Some (Inr (s, w))"
| "message_ids E msg (k # ks) s w = dbind (message_client E msg k s w) (\<lambda>(s1, w1). message_ids E msg ks s1 w1)"

lemma message_each_ids:
  "None \<notin> set ps \<Longrightarrow> message_each E msg x ps s w = message_ids E msg (filter (\<lambda>k. k \<noteq> x) (map ci_id (infos ps))) s w"
proof (induction E msg x ps s w rule: message_each.induct)
  case (3 E msg x c ps s w)
  then show ?case by (auto intro!: arg_cong [where f = "dbind _"])
qed auto

section \<open>Accepting\<close>

definition add_client :: "connection \<Rightarrow> error_code \<Rightarrow> 'w server \<Rightarrow> 'w server" where
  "add_client conn ec s = s
     \<lparr>next_available_id := next_available_id s + 1, srv_ec := ec,
      srv_clients := srv_clients s @ [Some \<lparr>ci_id = next_available_id s, ci_conn = conn,
                                            ci_fd = native_socket conn, ci_connected = True\<rparr>],
      srv_poll := add_socket (srv_poll s) (native_socket conn)\<rparr>"

lemma accept_client_fails:
  assumes "accept_ec E (srv_acceptor s) (srv_ec s) w = Inr (conn, ec, w1)" and "ec_bool ec"
  shows "accept_client E s w = Some (Inr (s\<lparr>srv_ec := ec\<rparr>, connection_destroy E conn w1))"
  using assms by (cases s) (simp add: accept_client_def Let_def)

lemma accept_client_succeeds:
  assumes "accept_ec E (srv_acceptor s) (srv_ec s) w = Inr (conn, ec, w1)" and "\<not> ec_bool ec"
  shows "accept_client E s w =
    invoke E (map_option (\<lambda>h. h (next_available_id s)) (srv_on_connect s)) (add_client conn ec s) w1"
  using assms by (simp add: accept_client_def add_client_def Let_def)

end
