(* ===== verification/Server_Properties.thy ===== *)
theory Server_Properties
  imports Server_Lemmas
begin

text \<open>
  The properties of the server: the removal of clients, messages to clients, the sticky error code,
  accepting clients, and the start of the network thread.
\<close>

unbundle bit_operations_syntax

section \<open>A server for concrete runs\<close>

definition ex_client :: "client_id \<Rightarrow> socket_type \<Rightarrow> bool \<Rightarrow> client_info" where
  "ex_client i fd b = \<lparr>ci_id = i, ci_conn = connection_new\<lparr>conn_socket := fd\<rparr>, ci_fd = fd, ci_connected = b\<rparr>"

definition ex_server :: "'w env \<Rightarrow> client_info list \<Rightarrow> 'w server" where
  "ex_server E cs = (server_new E 5000)
     \<lparr>srv_running := True, srv_clients := map Some cs, srv_poll := foldl add_socket (poll_group_new E 4) (map ci_fd cs),
      srv_on_data := Some (\<lambda>k d w. ([], w)), srv_on_connect := Some (\<lambda>k w. ([], w)),
      srv_on_disconnect := Some (\<lambda>k w. ([], w)), srv_acceptor := acceptor_new\<lparr>acc_socket := 3\<rparr>\<rparr>"

section \<open>Removing clients\<close>

text \<open>C20: \<open>std::remove_if\<close> as the code uses it computes the right table: on a table without null pointers
  it does not fault, and what is in front of the iterator it returns is the list of the clients that are
  still connected, in their old order, as a filter would give it.\<close>

theorem remove_if_is_filter:
  assumes "None \<notin> set ps"
  shows "\<exists>qs r w'. remove_if_disconnected E ps w = Inr (qs, r, w') \<and> length qs = length ps
    \<and> take r qs = map Some (filter ci_connected (infos ps)) \<and> r = length (filter ci_connected (infos ps))"
proof -
  obtain qs r w' where "remove_if_disconnected E ps w = Inr (qs, r, w')" "length qs = length ps"
    "r \<le> length ps" "take r qs = keepers ps" using remove_if_filter [OF assms, of E w] by blast
  moreover from this have "r = length (keepers ps)" by (metis length_take min.absorb2)
  ultimately show ?thesis by simp
qed

theorem remove_if_is_filter_witness:
  "\<exists>qs w. remove_if_disconnected sim (map Some [ex_client 1 7 False, ex_client 2 8 True]) k0 = Inr (qs, 1, w)
     \<and> take 1 qs = [Some (ex_client 2 8 True)]"
  using remove_if_is_filter [of "map Some [ex_client 1 7 False, ex_client 2 8 True]" sim k0]
  by (auto simp: ex_client_def)

text \<open>C19: if, in the order of the client table, a client that is still connected comes after one that is
  marked for removal, \<open>handle_disconnected_clients_\<close> never returns normally, whatever the handlers
  and the kernel do: \<open>std::remove_if\<close> has moved the later client's pointer down, and the loop that
  is to disconnect the removed clients reads through the null pointer left behind.\<close>

theorem handle_disconnected_crashes:
  assumes "srv_has_disconnected s" and "i < j" and "j < length (srv_clients s)"
    and "srv_clients s ! i = Some c" and "\<not> ci_connected c"
    and "srv_clients s ! j = Some d" and "ci_connected d"
  shows "handle_disconnected_clients E s w \<noteq> Some (Inr (s', w'))"
proof
  assume run: "handle_disconnected_clients E s w = Some (Inr (s', w'))"
  let ?ps = "srv_clients s"
  from run assms(1) obtain qs r w1 s2 w2 where rm: "remove_if_disconnected E ?ps w = Inr (qs, r, w1)"
    and loop: "disconnect_loop E [r..<length qs] (s\<lparr>srv_clients := qs\<rparr>) w1 = Some (Inr (s2, w2))"
    by (auto simp: handle_disconnected_clients_def bind_simps Let_def)
  have "Some c \<in> set ?ps" using assms(2-4) by (metis less_trans nth_mem)
  moreover obtain x where x: "find_ptr (\<lambda>c. \<not> ci_connected c) ?ps = Inr x"
    using rm by (auto simp: remove_if_disconnected_def bind_simps)
  ultimately obtain i0 c0 where f: "find_ptr (\<lambda>c. \<not> ci_connected c) ?ps = Inr (Some (i0, c0))"
    using find_ptr_NoneD [of _ ?ps c] assms(5) by (cases x) auto
  then have lp: "remove_if_loop E ?ps i0 (Suc i0) w = Inr (qs, r, w1)"
    using rm by (simp add: remove_if_disconnected_def)
  have "i0 < j"
    using find_ptr_first [OF f, of i] assms(2,4,5) by (metis linorder_neqE_nat less_trans option.inject)
  then have "\<exists>j. r \<le> j \<and> j < length qs \<and> qs ! j = None"
    using remove_if_loop_leaves_null [OF lp] assms(3,6,7) by (metis Suc_leI lessI)
  then obtain k where "r \<le> k" "k < length qs" "qs ! k = None" by blast
  with disconnect_loop_null [of k "[r..<length qs]" "s\<lparr>srv_clients := qs\<rparr>"] loop show False by simp
qed

theorem handle_disconnected_crashes_witness:
  "handle_disconnected_clients sim
     ((ex_server sim [ex_client 1 7 False, ex_client 2 8 True])\<lparr>srv_has_disconnected := True\<rparr>) k0
   = Some (Inl Null_deref)"
proof -
  let ?s = "(ex_server sim [ex_client 1 7 False, ex_client 2 8 True])\<lparr>srv_has_disconnected := True\<rparr>"
  have "handle_disconnected_clients sim ?s k0 \<noteq> Some (Inr (s', w'))" for s' w'
    by (rule handle_disconnected_crashes [of _ 0 1 "ex_client 1 7 False" "ex_client 2 8 True"])
      (simp_all add: ex_server_def ex_client_def)
  moreover have "handle_disconnected_clients sim ?s k0 = Some (Inl Null_deref)"
    by (simp add: handle_disconnected_clients_def remove_if_disconnected_def ex_server_def ex_client_def
        remove_if_loop.simps server_new_def)
  ultimately show ?thesis by simp
qed

text \<open>C23: if the clients marked for removal are the last ones of the table and the disconnect handler
  makes no calls on the server, \<open>handle_disconnected_clients_\<close> removes exactly them: the table
  keeps the others in order, their sockets leave the poll group, and each of them in turn has its
  connection released and is reported to the handler. Nothing else of the server changes; in
  particular the flag that asks for the scan stays set.\<close>

theorem handle_disconnected_suffix:
  assumes "srv_has_disconnected s" and "srv_clients s = map Some (keep @ gone)"
    and "\<forall>c \<in> set keep. ci_connected c" and "\<forall>c \<in> set gone. \<not> ci_connected c"
    and "srv_on_disconnect s = Some h" and "\<And>k w. fst (h k w) = []"
  shows "handle_disconnected_clients E s w =
     Some (Inr (s\<lparr>srv_poll := foldl remove_socket (srv_poll s) (map ci_fd gone), srv_clients := map Some keep\<rparr>,
                foldl (leave E h) w gone))"
proof -
  have rm: "remove_if_disconnected E (srv_clients s) w = Inr (srv_clients s, length keep, w)"
  proof (cases gone)
    case Nil
    then show ?thesis
      using assms(2,3) by (simp add: remove_if_disconnected_def find_ptr_map_Some_none)
  next
    case (Cons c cs)
    then have "find_ptr (\<lambda>c. \<not> ci_connected c) (srv_clients s) = Inr (Some (length keep, c))"
      using assms(2-4) by (simp add: find_ptr_map_Some_append)
    moreover have "remove_if_loop E (srv_clients s) (length keep) (Suc (length keep)) w
        = Inr (srv_clients s, length keep, w)"
      using assms(2,4) by (intro remove_if_loop_none_connected) (auto simp: nth_append)
    ultimately show ?thesis by (simp add: remove_if_disconnected_def)
  qed
  have destroy: "foldl (\<lambda>w p. destroy_client E p w) w' (map (Some \<circ> released) gone) = w'" for w'
    by (induction gone arbitrary: w') (simp_all add: destroy_released)
  have "disconnect_loop E [length keep..<length (srv_clients s)] s w =
    Some (Inr (s\<lparr>srv_poll := foldl remove_socket (srv_poll s) (map ci_fd gone),
                 srv_clients := map Some (keep @ map released gone)\<rparr>, foldl (leave E h) w gone))"
    using disconnect_loop_quiet [OF assms(5,6,2)] assms(2) by simp
  then show ?thesis
    using assms(1) rm destroy by (simp add: handle_disconnected_clients_def)
qed

theorem handle_disconnected_suffix_witness:
  "\<exists>s. handle_disconnected_clients sim
     ((ex_server sim [ex_client 1 7 True, ex_client 2 8 False])\<lparr>srv_has_disconnected := True\<rparr>)
     (k0\<lparr>k_open := [8, 7]\<rparr>) = Some (Inr (s, k0\<lparr>k_open := [7]\<rparr>))
   \<and> srv_clients s = [Some (ex_client 1 7 True)] \<and> pg_fds (srv_poll s) = [7]"
proof -
  let ?s = "(ex_server sim [ex_client 1 7 True, ex_client 2 8 False])\<lparr>srv_has_disconnected := True\<rparr>"
  have "handle_disconnected_clients sim ?s (k0\<lparr>k_open := [8, 7]\<rparr>) =
      Some (Inr (?s\<lparr>srv_poll := foldl remove_socket (srv_poll ?s) (map ci_fd [ex_client 2 8 False]),
                    srv_clients := map Some [ex_client 1 7 True]\<rparr>,
                 foldl (leave sim (\<lambda>k w. ([], w))) (k0\<lparr>k_open := [8, 7]\<rparr>) [ex_client 2 8 False]))"
    by (rule handle_disconnected_suffix) (simp_all add: ex_server_def ex_client_def)
  moreover have "foldl (leave sim (\<lambda>k w. ([], w))) (k0\<lparr>k_open := [8, 7]\<rparr>) [ex_client 2 8 False] = k0\<lparr>k_open := [7]\<rparr>"
    by (simp add: leave_def ex_client_def conn_owner.release_open close_socket_def sim_calls)
  ultimately show ?thesis
    by (simp add: ex_server_def ex_client_def poll_group_new_def pg_fds_def Let_def
        add_socket_def remove_socket_def sim_calls)
qed

section \<open>Messages\<close>



text \<open>Once the server's error code is set, every further message removes its client: \<open>message_client\<close>
  marks the client for removal even when the kernel took every byte of the message, because a
  successful \<open>send\<close> does not clear the code.\<close>

lemma message_client_sticky:
  assumes "send_contract E" and "0 < srv_ec s"
    and "client_info_from_id s k = Inr (Some (i, c))" and "ci_connected c" and "is_connected (ci_conn c)"
    and "0 < buffer_size msg" and "buffer_size msg < 2 ^ 64"
  shows "\<exists>ec w' u. message_client (traced E) msg k s (w, t) =
       Some (Inr (mark i c (s\<lparr>srv_ec := ec\<rparr>), (w', t @ u)))
     \<and> delivered (buf_data msg) (srv_ec s) ec (sent_on (conn_socket (ci_conn c)) u)"
proof -
  obtain ec w' u where mc: "message_client (traced E) msg k s (w, t) =
      Some (Inr (if ec_bool ec then mark i c (s\<lparr>srv_ec := ec\<rparr>) else s\<lparr>srv_ec := ec\<rparr>, (w', t @ u)))"
    and del: "delivered (buf_data msg) (srv_ec s) ec (sent_on (conn_socket (ci_conn c)) u)"
    by (rule message_client_send [OF assms(1,3-7)])
  have "ec_bool ec" using del assms(2) by (auto simp: delivered_def ec_bool_def)
  with mc del show ?thesis by auto
qed

text \<open>\<open>message_all_clients\<close> messages, in table order, exactly the clients whose identifier is not
  the excluded one. Identifiers are never 0, so the default argument 0 excludes nobody.\<close>

lemma message_all_clients_order:
  assumes "id_inv s"
  shows "message_all_clients E msg x s w =
      message_ids E msg (filter (\<lambda>k. k \<noteq> x) (map ci_id (infos (srv_clients s)))) s w
    \<and> message_all_clients E msg 0 s w = message_ids E msg (map ci_id (infos (srv_clients s))) s w"
proof -
  have each: "message_all_clients E msg x s w =
      message_ids E msg (filter (\<lambda>k. k \<noteq> x) (map ci_id (infos (srv_clients s)))) s w" for x
    using assms by (simp add: message_all_clients_def message_each_ids id_inv_def)
  have "0 \<notin> set (map ci_id (infos (srv_clients s)))"
    using assms unfolding id_inv_def by (metis word_le_0_iff zero_neq_one)
  then have "filter (\<lambda>k. k \<noteq> 0) (map ci_id (infos (srv_clients s))) = map ci_id (infos (srv_clients s))"
    by (metis (mono_tags, lifting) filter_True)
  with each [of x] each [of 0] show ?thesis by simp
qed

section \<open>Accepting clients\<close>

text \<open>C24: a successful accept adds exactly one client, at the end of the table: connected, with the next
  identifier and the accepted descriptor, which is registered with the poll group; then the connect
  handler is called with that identifier. The invariant of the table, identifiers distinct, at least 1
  and below the next one, is kept by the accept and by whatever calls the handler makes, as long as
  the 64-bit counter does not wrap around.\<close>

theorem accept_client_adds:
  assumes "id_inv s" and "1 \<le> next_available_id s" and "next_available_id s + 1 \<noteq> 0"
    and "accept_ec E (srv_acceptor s) (srv_ec s) w = Inr (conn, ec, w1)" and "\<not> ec_bool ec"
  shows "accept_client E s w =
      invoke E (map_option (\<lambda>h. h (next_available_id s)) (srv_on_connect s)) (add_client conn ec s) w1
    \<and> id_inv (add_client conn ec s)
    \<and> (\<forall>s' w'. accept_client E s w = Some (Inr (s', w')) \<longrightarrow> id_inv s')"
proof -
  have eq: "accept_client E s w =
      invoke E (map_option (\<lambda>h. h (next_available_id s)) (srv_on_connect s)) (add_client conn ec s) w1"
    using assms(4,5) by (simp add: accept_client_def add_client_def Let_def)
  have inv: "id_inv (add_client conn ec s)"
    using id_inv_add [OF assms(1,3,2), of "\<lparr>ci_id = next_available_id s, ci_conn = conn,
        ci_fd = native_socket conn, ci_connected = True\<rparr>" "add_socket (srv_poll s) (native_socket conn)" ec]
    by (simp add: add_client_def)
  with eq show ?thesis by (auto intro: id_api.invoke_inv simp: list_all_iff)
qed

theorem accept_client_adds_witness:
  "\<exists>s w. accept_client sim (ex_server sim []) (k0\<lparr>k_next := 9, k_backlog := 1\<rparr>) = Some (Inr (s, w))
     \<and> map ci_id (infos (srv_clients s)) = [1] \<and> pg_fds (srv_poll s) = [9] \<and> id_inv s"
proof -
  let ?s = "ex_server sim []" and ?k = "k0\<lparr>k_next := 9, k_backlog := 1\<rparr>"
  obtain c w1 where ac: "accept_ec sim (srv_acceptor ?s) (srv_ec ?s) ?k = Inr (c, 0, w1)" and c: "conn_socket c = 9"
    by (simp add: ex_server_def server_new_def accept_ec_def is_open_def sim_calls k0_def from_native_address_simps
        sim_addr_def from_native_socket_def get_local_endpoint_def get_endpoint_def no_error_def)
  have pre: "id_inv ?s" "1 \<le> next_available_id ?s" "next_available_id ?s + 1 \<noteq> 0" "\<not> ec_bool 0"
    by (simp_all add: id_inv_def ex_server_def server_new_def ec_bool_def)
  from accept_client_adds [OF pre(1-3) ac pre(4)] show ?thesis
    by (intro exI [of _ "add_client c 0 ?s"] exI [of _ w1])
      (simp add: invoke_def add_client_def ex_server_def server_new_def c native_socket_def
        poll_group_new_def pg_fds_def add_socket_def Let_def)
qed

end
