(* ===== verification/Server_Loop.thy ===== *)
theory Server_Loop
  imports Server_Properties
begin

text \<open>
  The network thread as a whole. The locale \<open>net_invariant\<close> extends \<open>api_invariant\<close> by what each
  step of the thread does to the server; a predicate that has these laws is kept by every round and
  by the whole loop. Its two instances are the well-formedness of the client table and ``nobody has
  asked the server to stop''.
\<close>

unbundle bit_operations_syntax

section \<open>Steps of the thread\<close>

lemma handle_event_cases [consumes 1]:
  assumes "handle_event E ev s w = Some (Inr (s', w'))"
  obtains (ignored) "s' = s" "w' = w"
  | (hung_up) c :: client_info where "remove_client (ci_id c) s = Inr s'" "w' = w"
  | (failed) i c d ec conn where "client_info_from_native_socket s (si_fd ev) = Inr (Some (i, c))"
      "receive_max_ec E (ci_conn c) (srv_ec s) 0 w = (d, ec, conn, w')"
      "remove_client (ci_id c)
         (s\<lparr>srv_ec := ec, srv_clients := (srv_clients s)[i := Some (c\<lparr>ci_conn := conn\<rparr>)]\<rparr>) = Inr s'"
  | (data) i c d ec conn w1 where "client_info_from_native_socket s (si_fd ev) = Inr (Some (i, c))"
      "receive_max_ec E (ci_conn c) (srv_ec s) 0 w = (d, ec, conn, w1)"
      "invoke E (map_option (\<lambda>h. h (ci_id c) d) (srv_on_data s))
         (s\<lparr>srv_ec := ec, srv_clients := (srv_clients s)[i := Some (c\<lparr>ci_conn := conn\<rparr>)]\<rparr>) w1 = Some (Inr (s', w'))"
      "buffer_size d \<noteq> 0"
proof -
  obtain r where r: "client_info_from_native_socket s (si_fd ev) = Inr r"
    using assms by (auto simp: handle_event_def bind_simps)
  show ?thesis
  proof (cases r)
    case None
    with assms r ignored show ?thesis by (simp add: handle_event_def)
  next
    case (Some p)
    obtain i c where p: "p = (i, c)" by (cases p)
    obtain d ec conn w1 where rc: "receive_max_ec E (ci_conn c) (srv_ec s) 0 w = (d, ec, conn, w1)"
      by (metis prod.exhaust)
    let ?bad = "bm_and E (si_status ev) (bm_or E (ss_bits ss_error) (ss_bits ss_hung_up)) \<noteq> 0"
    let ?in = "bm_and E (si_status ev) (ss_bits ss_readable) \<noteq> 0"
    consider "?bad" | "\<not> ?bad" "\<not> ?in" | "\<not> ?bad" "?in" "ec_bool ec \<or> buffer_size d = 0"
      | "\<not> ?bad" "?in" "\<not> (ec_bool ec \<or> buffer_size d = 0)" by metis
    then show ?thesis
    proof cases
      case 1
      with assms r Some p show ?thesis by (intro hung_up [of c]) (simp_all add: handle_event_def bind_simps)
    next
      case 2
      with assms r Some p show ?thesis by (intro ignored) (simp_all add: handle_event_def)
    next
      case 3
      with assms r Some p rc show ?thesis
        by (intro failed [of i c d ec conn]) (simp_all add: handle_event_def bind_simps Let_def)
    next
      case 4
      with assms r Some p rc show ?thesis
        by (intro data [of i c d ec conn w1]) (simp_all add: handle_event_def Let_def)
    qed
  qed
qed

section \<open>Predicates kept by the network thread\<close>

locale net_invariant = api_invariant I ok
  for I :: "'w server \<Rightarrow> bool" and ok :: "api_call \<Rightarrow> bool" +
  assumes no_null: "I s \<Longrightarrow> None \<notin> set (srv_clients s)"
    and ok_data: "I s \<Longrightarrow> srv_on_data s = Some f \<Longrightarrow> list_all ok (fst (f k d w))"
    and ok_connect: "I s \<Longrightarrow> srv_on_connect s = Some h \<Longrightarrow> list_all ok (fst (h k w))"
    and ok_disconnect: "I s \<Longrightarrow> srv_on_disconnect s = Some h \<Longrightarrow> list_all ok (fst (h k w))"
    and I_add: "I s \<Longrightarrow> I (add_client conn ec s)"
    and I_poll: "I s \<Longrightarrow> pg_poll E (srv_poll s) tm w = (evs, g, w') \<Longrightarrow> I (s\<lparr>srv_poll := g\<rparr>)"
    and I_forget: "I s \<Longrightarrow> I (s\<lparr>srv_poll := remove_socket (srv_poll s) fd\<rparr>)"
    and I_conn: "I s \<Longrightarrow> i < length (srv_clients s) \<Longrightarrow> srv_clients s ! i = Some c \<Longrightarrow>
       conn = ci_conn c \<or> conn = connection_new \<Longrightarrow>
       I (s\<lparr>srv_clients := (srv_clients s)[i := Some (c\<lparr>ci_conn := conn\<rparr>)]\<rparr>)"
    and I_erase: "I s \<Longrightarrow> I (s\<lparr>srv_clients := take n (srv_clients s)\<rparr>)"
begin

lemma accept_client_inv:
  assumes "I s" and "accept_client E s w = Some (Inr (s', w'))"
  shows "I s'"
proof -
  obtain conn ec w1 where a: "accept_ec E (srv_acceptor s) (srv_ec s) w = Inr (conn, ec, w1)"
    using assms(2) by (auto simp: accept_client_def bind_simps Let_def)
  show ?thesis
  proof (cases "ec_bool ec")
    case True
    with assms a show ?thesis by (auto simp: accept_client_fails intro: I_ec)
  next
    case False
    have "I (add_client conn ec s)" using assms(1) by (rule I_add)
    moreover have "list_all ok (fst (f w))" if "map_option (\<lambda>h. h (next_available_id s)) (srv_on_connect s) = Some f" for f w
      using that ok_connect [OF assms(1)] by auto
    ultimately show ?thesis
      using assms(2) invoke_inv unfolding accept_client_succeeds [OF a False] by blast
  qed
qed

lemma handle_incoming_connections_inv:
  assumes "I s" and "handle_incoming_connections E s w = Some (Inr (s', w'))"
  shows "I s'"
proof -
  have "I s \<longrightarrow> (\<forall>s' w'. r = Inr (s', w') \<longrightarrow> I s')" if "handle_incoming_connections E s w = Some r" for r
    using that
    by (rule handle_incoming_connections.raw_induct
        [where P = "\<lambda>E s w r. I s \<longrightarrow> (\<forall>s' w'. r = Inr (s', w') \<longrightarrow> I s')", rotated])
      (fastforce simp: bind_simps split: if_splits prod.splits dest: accept_client_inv)
  with assms show ?thesis by blast
qed

lemma handle_event_inv:
  assumes "I s" and "handle_event E ev s w = Some (Inr (s', w'))"
  shows "I s'"
  using assms(2)
proof (cases rule: handle_event_cases)
  case (data i c d ec conn w1)
  let ?s = "s\<lparr>srv_ec := ec, srv_clients := (srv_clients s)[i := Some (c\<lparr>ci_conn := conn\<rparr>)]\<rparr>"
  have "I ?s"
    using I_conn [OF I_ec [OF assms(1)]] by_fd.found [OF data(1)] receive_max_conn [OF data(2)] by simp
  moreover have "list_all ok (fst (f w))" if "map_option (\<lambda>h. h (ci_id c) d) (srv_on_data s) = Some f" for f w
    using that ok_data [OF assms(1)] by auto
  ultimately show ?thesis
    using invoke_inv [OF _ _ data(3)] by blast
next
  case (failed i c d ec conn)
  have "I (s\<lparr>srv_ec := ec, srv_clients := (srv_clients s)[i := Some (c\<lparr>ci_conn := conn\<rparr>)]\<rparr>)"
    using I_conn [OF I_ec [OF assms(1)]] by_fd.found [OF failed(1)] receive_max_conn [OF failed(2)] by simp
  with failed(3) show ?thesis by (auto intro: remove_client_inv)
qed (use assms(1) in \<open>auto intro: remove_client_inv\<close>)

lemma handle_events_inv: "I s \<Longrightarrow> handle_events E evs s w = Some (Inr (s', w')) \<Longrightarrow> I s'"
  by (induction evs arbitrary: s w) (auto simp: bind_simps dest: handle_event_inv split: if_splits)

lemma handle_incoming_messages_inv: "I s \<Longrightarrow> handle_incoming_messages E s w = Some (Inr (s', w')) \<Longrightarrow> I s'"
  by (auto simp: handle_incoming_messages_def dest: I_poll handle_events_inv split: prod.splits)

lemma disconnect_loop_inv: "I s \<Longrightarrow> disconnect_loop E its s w = Some (Inr (s', w')) \<Longrightarrow> I s'"
proof (induction its arbitrary: s w)
  case (Cons it its)
  then obtain c where it: "it < length (srv_clients s)" "srv_clients s ! it = Some c"
    by (auto split: if_splits option.splits)
  obtain conn w1 where d: "disconnect E (ci_conn c) w = (conn, w1)" by fastforce
  let ?s = "s\<lparr>srv_poll := remove_socket (srv_poll s) (ci_fd c),
             srv_clients := (srv_clients s)[it := Some (c\<lparr>ci_conn := conn\<rparr>)]\<rparr>"
  have s: "I ?s"
    using I_conn [OF I_forget [OF Cons.prems(1)], where i = it and c = c and conn = conn] it disconnect_conn [OF d]
    by simp
  obtain s2 w2 where inv: "invoke E (map_option (\<lambda>h. h (ci_id c)) (srv_on_disconnect s)) ?s w1 = Some (Inr (s2, w2))"
    and rest: "disconnect_loop E its s2 w2 = Some (Inr (s', w'))"
    using Cons.prems(2) it d by (auto simp: bind_simps Let_def)
  have "list_all ok (fst (f w))" if "map_option (\<lambda>h. h (ci_id c)) (srv_on_disconnect s) = Some f" for f w
    using that ok_disconnect [OF Cons.prems(1)] by auto
  then have "I s2" using invoke_inv [OF s _ inv] by blast
  with rest show ?case by (rule Cons.IH [rotated])
qed simp

lemma handle_disconnected_clients_inv:
  assumes "I s" and "handle_disconnected_clients E s w = Some (Inr (s', w'))"
  shows "I s'"
proof (cases "srv_has_disconnected s")
  case True
  with assms(2) obtain qs r w1 s2 w2 where rm: "remove_if_disconnected E (srv_clients s) w = Inr (qs, r, w1)"
    and loop: "disconnect_loop E [r..<length qs] (s\<lparr>srv_clients := qs\<rparr>) w1 = Some (Inr (s2, w2))"
    and s': "s' = s2\<lparr>srv_clients := take r (srv_clients s2)\<rparr>"
    by (auto simp: handle_disconnected_clients_def bind_simps Let_def)
  have "\<not> (r \<le> j \<and> j < length qs \<and> qs ! j = None)" for j
    using loop disconnect_loop_null [of j "[r..<length qs]" "s\<lparr>srv_clients := qs\<rparr>" E w1 s2 w2] by auto
  then have "qs = srv_clients s"
    using remove_if_unchanged_or_null [OF no_null [OF assms(1)] rm] by blast
  then have "I s2" using disconnect_loop_inv [OF _ loop] assms(1) by simp
  then show ?thesis unfolding s' by (rule I_erase)
qed (use assms in \<open>simp add: handle_disconnected_clients_def\<close>)

lemma tick_inv:
  assumes "I s" and "tick E s w = Some (Inr (s', w'))"
  shows "I s'"
proof -
  obtain s1 w1 s2 w2 where "handle_incoming_connections E s w = Some (Inr (s1, w1))"
    "handle_incoming_messages E s1 w1 = Some (Inr (s2, w2))"
    "handle_disconnected_clients E s2 w2 = Some (Inr (s', w'))"
    using assms(2) by (auto simp: tick_def bind_simps)
  then show ?thesis
    using assms(1) handle_incoming_connections_inv handle_incoming_messages_inv
      handle_disconnected_clients_inv by blast
qed

lemma server_loop_inv:
  assumes "I s" and "server_loop E s w = Some (Inr (s', w'))"
  shows "I s'"
proof -
  have "I s \<longrightarrow> (\<forall>s' w'. r = Inr (s', w') \<longrightarrow> I s')" if "server_loop E s w = Some r" for r
    using that
    by (rule server_loop.raw_induct
        [where P = "\<lambda>E s w r. I s \<longrightarrow> (\<forall>s' w'. r = Inr (s', w') \<longrightarrow> I s')", rotated])
      (fastforce simp: bind_simps split: if_splits prod.splits dest: tick_inv)
  with assms show ?thesis by blast
qed

end

section \<open>Instances\<close>

text \<open>Well-formedness of the client table: no null pointers, the scan flag set if a client is marked,
  every client's connection closed or on the client's descriptor, and every poll entry asking for
  the events the group was made for.\<close>

definition table_inv :: "'w server \<Rightarrow> bool" where
  "table_inv s \<longleftrightarrow> None \<notin> set (srv_clients s)
     \<and> list_all (\<lambda>c. (ci_connected c \<or> srv_has_disconnected s) \<and> conn_socket (ci_conn c) \<in> {ci_fd c, 0}) (infos (srv_clients s))
     \<and> pg_wf (srv_poll s)"

lemma list_all_infos_update:
  assumes "None \<notin> set ps" and "list_all P (infos ps)" and "i < length ps" and "P c"
  shows "list_all P (infos (ps[i := Some c]))"
  using assms by (simp add: infos_update list_all_length length_infos nth_list_update)

lemma list_all_infosD: "list_all P (infos ps) \<Longrightarrow> i < length ps \<Longrightarrow> ps ! i = Some c \<Longrightarrow> P c"
  by (metis list_all_iff nth_mem set_infos)

lemma infos_take: "None \<notin> set ps \<Longrightarrow> infos (take n ps) = take n (infos ps)"
  by (metis infos_map_Some map_Some_infos take_map)

lemma table_inv_mark:
  assumes "table_inv s" and "i < length (srv_clients s)" and "srv_clients s ! i = Some c"
  shows "table_inv (mark i c s)"
proof -
  let ?P = "\<lambda>c. conn_socket (ci_conn c) \<in> {ci_fd c, 0}"
  have "None \<notin> set (srv_clients s)" "list_all ?P (infos (srv_clients s))" "pg_wf (srv_poll s)"
    using assms(1) by (auto simp: table_inv_def list_all_iff)
  moreover from this have "?P (c\<lparr>ci_connected := False\<rparr>)"
    using list_all_infosD [of ?P] assms(2,3) by simp
  ultimately show ?thesis
    using assms(2) list_all_infos_update [of "srv_clients s" ?P i "c\<lparr>ci_connected := False\<rparr>"]
    by (simp add: table_inv_def mark_def not_null_update del: insert_iff)
qed

lemma table_inv_conn:
  assumes "table_inv s" and "i < length (srv_clients s)" and "srv_clients s ! i = Some c"
    and "conn = ci_conn c \<or> conn = connection_new"
  shows "table_inv (s\<lparr>srv_clients := (srv_clients s)[i := Some (c\<lparr>ci_conn := conn\<rparr>)]\<rparr>)"
proof -
  let ?P = "\<lambda>c. (ci_connected c \<or> srv_has_disconnected s) \<and> conn_socket (ci_conn c) \<in> {ci_fd c, 0}"
  have n: "None \<notin> set (srv_clients s)" "list_all ?P (infos (srv_clients s))" "pg_wf (srv_poll s)"
    using assms(1) by (auto simp: table_inv_def)
  have "?P (c\<lparr>ci_conn := conn\<rparr>)"
    using list_all_infosD [OF n(2) assms(2,3)] assms(4) by (auto simp: connection_new_def)
  from list_all_infos_update [OF n(1,2) assms(2) this] n show ?thesis
    by (simp add: table_inv_def not_null_update del: insert_iff)
qed

lemma table_inv_take:
  assumes "table_inv s"
  shows "table_inv (s\<lparr>srv_clients := take n (srv_clients s)\<rparr>)"
proof -
  have "None \<notin> set (take n (srv_clients s))"
    using assms by (auto simp: table_inv_def dest: in_set_takeD)
  then show ?thesis
    using assms by (auto simp: table_inv_def infos_take list_all_iff dest: in_set_takeD)
qed

interpretation table_net: net_invariant table_inv "\<lambda>_. True"
proof unfold_locales
  show "table_inv s \<Longrightarrow> table_inv (add_client conn ec s)" for s :: "'a server" and conn ec
    by (simp add: table_inv_def add_client_def native_socket_def pg_wf_add)
  show "table_inv s \<Longrightarrow> pg_poll E (srv_poll s) tm w = (evs, g, w') \<Longrightarrow> table_inv (s\<lparr>srv_poll := g\<rparr>)"
    for s :: "'a server" and E :: "'b env" and tm w evs g w'
    using pg_wf_poll [of "srv_poll s" E tm w] by (simp add: table_inv_def)
qed (simp_all add: table_inv_mark table_inv_conn table_inv_take, simp_all add: table_inv_def stop_def pg_wf_remove list_all_iff)

text \<open>Nobody has stopped the server, and no handler ever will.\<close>

definition never_stops :: "api_call list \<Rightarrow> bool" where
  "never_stops calls \<longleftrightarrow> list_all (\<lambda>a. a \<noteq> Call_stop) calls"

definition nonstop :: "'w server \<Rightarrow> bool" where
  "nonstop s \<longleftrightarrow> srv_running s \<and> None \<notin> set (srv_clients s)
     \<and> (\<forall>h k d w. srv_on_data s = Some h \<longrightarrow> never_stops (fst (h k d w)))
     \<and> (\<forall>h k w. srv_on_connect s = Some h \<longrightarrow> never_stops (fst (h k w)))
     \<and> (\<forall>h k w. srv_on_disconnect s = Some h \<longrightarrow> never_stops (fst (h k w)))"

interpretation nonstop_net: net_invariant nonstop "\<lambda>a. a \<noteq> Call_stop"
  by unfold_locales (auto simp: nonstop_def never_stops_def mark_def add_client_def not_null_update
      dest: in_set_takeD)

lemma server_loop_exit: "server_loop E s w = Some (Inr (s', w')) \<Longrightarrow> \<not> srv_running s'"
proof -
  have "\<forall>s' w'. r = Inr (s', w') \<longrightarrow> \<not> srv_running s'" if "server_loop E s w = Some r" for r
    using that
    by (rule server_loop.raw_induct
        [where P = "\<lambda>E s w r. \<forall>s' w'. r = Inr (s', w') \<longrightarrow> \<not> srv_running s'", rotated])
      (fastforce simp: bind_simps split: if_splits)
  then show "server_loop E s w = Some (Inr (s', w')) \<Longrightarrow> \<not> srv_running s'" by blast
qed

text \<open>The part of the thread before its loop does not touch the table, and it only returns if the error
  code was clear.\<close>

lemma resolve_ec_code: "resolve_ec E host service ec w = Inr (es, ec', w') \<Longrightarrow> ec' = ec \<or> ec' = 3"
  by (auto simp: resolve_ec_def bind_simps split: option.splits prod.splits)

lemma open_ec_opened:
  "open_ec E a es ec cfg w = Inr ((), ec', a', w') \<Longrightarrow> \<not> ec_bool ec' \<Longrightarrow> is_open a' \<and> ec' = ec"
  by (auto simp: open_ec_def bind_simps Let_def is_open_def ec_bool_def split: if_splits)

lemma network_thread_start_result:
  assumes "network_thread_start E s w = Inr (s', w')"
  shows "\<not> ec_bool (srv_ec s) \<and> (\<exists>a. is_open a \<and> s' = s\<lparr>srv_running := True, srv_acceptor := a\<rparr>)"
proof -
  obtain es ec w1 a ec2 where r: "resolve_ec E any_address (to_string (unat (srv_port s))) (srv_ec s) w = Inr (es, ec, w1)"
    "\<not> ec_bool ec"
    and o: "open_ec E (srv_acceptor s) es ec (ac_bits ac_reuse_address) w1 = Inr ((), ec2, a, w')" "\<not> ec_bool ec2"
    and s': "s' = s\<lparr>srv_running := True, srv_ec := ec2, srv_acceptor := a\<rparr>"
    using assms by (auto simp: network_thread_start_def bind_simps Let_def split: if_splits)
  have "ec = srv_ec s" using resolve_ec_code [OF r(1)] r(2) by (auto simp: ec_bool_def)
  moreover from this have "ec2 = srv_ec s" "is_open a" using open_ec_opened [OF o] by simp_all
  moreover have "s\<lparr>srv_running := True, srv_ec := srv_ec s, srv_acceptor := a\<rparr> = s\<lparr>srv_running := True, srv_acceptor := a\<rparr>"
    by (cases s) simp
  ultimately show ?thesis using r(2) s' by metis
qed

lemma network_thread_cases:
  assumes "network_thread_function E s w = Some (Inr (s', w'))"
  obtains s1 w1 s2 w2 where "network_thread_start E s w = Inr (s1, w1)"
    "server_loop E s1 w1 = Some (Inr (s2, w2))"
    "s' = s2\<lparr>srv_acceptor := fst (close_acceptor E (srv_acceptor s2) w2), srv_thread := Thread_finished\<rparr>"
  using assms by (auto simp: network_thread_function_def bind_simps split_beta)

section \<open>Properties of the network thread\<close>

text \<open>C2: the network thread keeps the client table well-formed: no null pointers, every client marked
  for removal announced by the scan flag, every client's connection either closed or on the client's
  descriptor, every poll entry asking for the configured events. Whatever the handlers and the
  kernel do, this holds after every round that returns; and when the thread function returns, the
  server is not running, its acceptor is closed and the table is well-formed.\<close>

theorem network_thread_invariant:
  assumes "table_inv s"
  shows "(tick E s w = Some (Inr (s', w')) \<longrightarrow> table_inv s')
    \<and> (network_thread_function E s w = Some (Inr (s', w')) \<longrightarrow>
         table_inv s' \<and> \<not> is_running s' \<and> \<not> is_open (srv_acceptor s') \<and> srv_thread s' = Thread_finished)"
proof (intro conjI impI)
  show "table_inv s'" if "tick E s w = Some (Inr (s', w'))"
    using assms that by (rule table_net.tick_inv)
next
  assume "network_thread_function E s w = Some (Inr (s', w'))"
  then obtain s1 w1 s2 w2 where st: "network_thread_start E s w = Inr (s1, w1)"
    and lp: "server_loop E s1 w1 = Some (Inr (s2, w2))"
    and s': "s' = s2\<lparr>srv_acceptor := fst (close_acceptor E (srv_acceptor s2) w2), srv_thread := Thread_finished\<rparr>"
    by (rule network_thread_cases)
  have "table_inv s1"
    using assms network_thread_start_result [OF st] by (auto simp: table_inv_def)
  then have "table_inv s2" using lp by (rule table_net.server_loop_inv)
  then show "table_inv s'" unfolding s' by (simp add: table_inv_def)
  show "\<not> is_running s'" using server_loop_exit [OF lp] s' by (simp add: is_running_def)
  show "\<not> is_open (srv_acceptor s')"
    using s' acc_owner.released [of E "srv_acceptor s2" w2] by (simp add: is_open_def) (metis prod.collapse)
  show "srv_thread s' = Thread_finished" using s' by simp
qed

text \<open>The start of the thread on the small kernel, and a server whose connect handler stops it, run to
  the end.\<close>

lemma c_str_to_string: "c_str (to_string n) = to_string n"
  using NUL_notin_to_string [of n] by (auto simp: c_str_def takeWhile_eq_all_conv)

lemma sim_resolve:
  "resolve_ec sim any_address (to_string n) no_error k =
     Inr ([node_endpoint (Addrinfo 6 sim_addr 16 None), node_endpoint (Addrinfo 6 sim_addr 16 None)], no_error, k)"
proof -
  have "to_string n \<noteq> []" by (subst to_string.simps) simp
  then show ?thesis
    by (simp add: resolve_ec_def getaddrinfo_def sim_calls c_str_to_string from_native_address_simps
        sim_addr_def node_endpoint_def)
qed

lemma sim_open:
  "\<exists>a'. acc_socket a' = 3 \<and> open_ec sim a (node_endpoint (Addrinfo 6 sim_addr 16 None) # es) no_error 1 (k0\<lparr>k_backlog := n\<rparr>) =
     Inr ((), no_error, a', k0\<lparr>k_backlog := n, k_next := 4, k_open := [3], k_listening := [3]\<rparr>)"
  by (simp add: open_ec_def try_listen_def sim_calls k0_def family_def node_endpoint_def
      sim_addr_def sa_family_def byte_at_def protocol_def get_local_endpoint_def
      get_endpoint_def from_native_address_simps backlog_size_def int_of_ssize_def)

lemma sim_start:
  assumes "srv_ec s = no_error"
  shows "\<exists>a. acc_socket a = 3 \<and> network_thread_start sim s (k0\<lparr>k_backlog := n\<rparr>) =
    Inr (s\<lparr>srv_running := True, srv_acceptor := a\<rparr>, k0\<lparr>k_backlog := n, k_next := 4, k_open := [3], k_listening := [3]\<rparr>)"
proof -
  obtain a where "acc_socket a = 3" "network_thread_start sim s (k0\<lparr>k_backlog := n\<rparr>) =
      Inr (s\<lparr>srv_running := True, srv_ec := no_error, srv_acceptor := a\<rparr>,
           k0\<lparr>k_backlog := n, k_next := 4, k_open := [3], k_listening := [3]\<rparr>)"
    using sim_open [of "srv_acceptor s" "[node_endpoint (Addrinfo 6 sim_addr 16 None)]" n]
    by (auto simp: network_thread_start_def assms sim_resolve Let_def)
  moreover have "s\<lparr>srv_running := True, srv_ec := no_error, srv_acceptor := a\<rparr> = s\<lparr>srv_running := True, srv_acceptor := a\<rparr>"
    using assms by (cases s) simp
  ultimately show ?thesis by auto
qed

lemma stopping_run:
  "\<exists>s w. network_thread_function sim (set_client_connect_handler (\<lambda>k w. ([Call_stop], w)) (server_new sim 5000))
      (k0\<lparr>k_backlog := 1\<rparr>) = Some (Inr (s, w)) \<and> k_open w = [4] \<and> map ci_id (infos (srv_clients s)) = [1]"
proof -
  let ?s = "set_client_connect_handler (\<lambda>k w. ([Call_stop], w)) (server_new sim 5000)"
  have "srv_ec ?s = no_error" by (simp add: set_client_connect_handler_def server_new_def)
  from sim_start [OF this, of 1] obtain a where a: "acc_socket a = 3"
    and st: "network_thread_start sim ?s (k0\<lparr>k_backlog := 1\<rparr>) = Inr (?s\<lparr>srv_running := True, srv_acceptor := a\<rparr>,
        k0\<lparr>k_backlog := 1, k_next := 4, k_open := [3], k_listening := [3]\<rparr>)"
    by blast
  show ?thesis
    unfolding network_thread_function_def st
    by (simp add: a server_loop.simps tick_def handle_incoming_connections.simps has_pending_connection_def
        poll_socket_def sim_calls sim_revents_def k0_def ssm_from_revents_def accept_client_def accept_ec_def
        is_open_def from_native_address_simps sim_addr_def from_native_socket_def get_local_endpoint_def
        get_endpoint_def native_socket_def Let_def set_client_connect_handler_def server_new_def invoke_def
        stop_def handle_incoming_messages_def pg_poll_def handle_disconnected_clients_def poll_group_new_def
        add_socket_def write_revents_def enumerate_eq_zip close_acceptor_def close_socket_def)
qed

theorem network_thread_invariant_witness:
  "\<exists>s w. network_thread_function sim (set_client_connect_handler (\<lambda>k w. ([Call_stop], w)) (server_new sim 5000))
      (k0\<lparr>k_backlog := 1\<rparr>) = Some (Inr (s, w)) \<and> table_inv s \<and> \<not> is_running s \<and> k_open w = [4]"
proof -
  let ?s = "set_client_connect_handler (\<lambda>k w. ([Call_stop], w)) (server_new sim 5000)"
  have "table_inv ?s"
    by (simp add: table_inv_def set_client_connect_handler_def server_new_def pg_wf_new)
  moreover obtain s w where "network_thread_function sim ?s (k0\<lparr>k_backlog := 1\<rparr>) = Some (Inr (s, w))" "k_open w = [4]"
    using stopping_run by blast
  ultimately show ?thesis
    using network_thread_invariant [of ?s sim "k0\<lparr>k_backlog := 1\<rparr>" s w] by blast
qed



section \<open>Starting and stopping\<close>

text \<open>C35: the network thread reaches its loop only if the error code was clear, the resolver answered
  and a socket could be opened; then the server is running with an open acceptor and is otherwise
  unchanged. In every other case the process exits. A call of \<open>stop\<close> that comes before the thread
  has started is lost: the thread starts as if it had not been made.\<close>

theorem network_thread_start_outcomes:
  assumes "resolve_ec E any_address (to_string (unat (srv_port s))) (srv_ec s) w = Inr (es, ec, w1)"
    and "open_ec E (srv_acceptor s) es ec (ac_bits ac_reuse_address) w1 = Inr ((), ec2, a, w2)"
  shows "network_thread_start E s w =
      (if ec_bool (srv_ec s) \<or> ec = 3 \<or> \<not> is_open a \<or> ec_bool ec2 then Inl Exit_failure
       else Inr (s\<lparr>srv_running := True, srv_acceptor := a\<rparr>, w2))
    \<and> network_thread_start E (stop s) w = network_thread_start E s w"
proof (intro conjI)
  show "network_thread_start E (stop s) w = network_thread_start E s w"
    by (simp add: network_thread_start_def stop_def)
  have "ec = srv_ec s \<or> ec = 3" using resolve_ec_code [OF assms(1)] .
  moreover have "\<not> ec_bool ec2 \<longrightarrow> is_open a \<and> ec2 = ec" using open_ec_opened [OF assms(2)] by blast
  moreover have "s\<lparr>srv_running := True, srv_ec := srv_ec s, srv_acceptor := a\<rparr> = s\<lparr>srv_running := True, srv_acceptor := a\<rparr>"
    by (cases s) simp
  ultimately show "network_thread_start E s w =
      (if ec_bool (srv_ec s) \<or> ec = 3 \<or> \<not> is_open a \<or> ec_bool ec2 then Inl Exit_failure
       else Inr (s\<lparr>srv_running := True, srv_acceptor := a\<rparr>, w2))"
    using assms by (auto simp: network_thread_start_def Let_def ec_bool_def)
qed

theorem network_thread_start_outcomes_witness:
  "\<exists>a w. network_thread_start sim (stop (server_new sim 5000)) k0 =
     Inr ((server_new sim 5000)\<lparr>srv_running := True, srv_acceptor := a\<rparr>, w) \<and> is_open a"
proof -
  let ?s = "server_new sim 5000" and ?e = "node_endpoint (Addrinfo 6 sim_addr 16 None)"
  obtain a where a: "acc_socket a = 3"
    and o: "open_ec sim (srv_acceptor ?s) [?e, ?e] no_error (ac_bits ac_reuse_address) (k0\<lparr>k_backlog := 0\<rparr>) =
      Inr ((), no_error, a, k0\<lparr>k_backlog := 0, k_next := 4, k_open := [3], k_listening := [3]\<rparr>)"
    using sim_open [of "srv_acceptor ?s" "[?e]" 0] by auto
  have r: "resolve_ec sim any_address (to_string (unat (srv_port ?s))) (srv_ec ?s) (k0\<lparr>k_backlog := 0\<rparr>) =
      Inr ([?e, ?e], no_error, k0\<lparr>k_backlog := 0\<rparr>)"
    by (simp add: server_new_def sim_resolve)
  have "k0\<lparr>k_backlog := 0\<rparr> = k0" by (simp add: k0_def)
  with network_thread_start_outcomes [OF r o] a show ?thesis
    by (auto simp: is_open_def server_new_def no_error_def ec_bool_def)
qed

text \<open>A server can be run once. \<open>run\<close> on a server that is not running starts its thread; until that
  thread has set the running flag, after a \<open>stop\<close>, and after the thread has ended, another \<open>run\<close>
  ends the process, because it assigns over a thread that was not joined.\<close>

lemma run_only_once:
  assumes "run_server s = Inr s1" and "\<not> is_running s"
  shows "srv_thread s1 = Thread_running \<and> run_server s1 = Inl Terminate \<and> run_server (stop s1) = Inl Terminate
    \<and> (network_thread_function E s1 w = Some (Inr (s2, w2)) \<longrightarrow> run_server s2 = Inl Terminate)"
proof -
  have s1: "s1 = s\<lparr>srv_thread := Thread_running\<rparr>" "\<not> srv_running s1"
    using assms by (auto simp: run_server_def is_running_def split: if_splits)
  moreover have "run_server s2 = Inl Terminate" if run: "network_thread_function E s1 w = Some (Inr (s2, w2))"
    using run
  proof (rule network_thread_cases)
    fix t1 v1 t2 v2
    assume "server_loop E t1 v1 = Some (Inr (t2, v2))"
      "s2 = t2\<lparr>srv_acceptor := fst (close_acceptor E (srv_acceptor t2) v2), srv_thread := Thread_finished\<rparr>"
    then show ?thesis
      using server_loop_exit [of E t1 v1 t2 v2] by (simp add: run_server_def joinable_def)
  qed
  ultimately show ?thesis by (simp add: run_server_def joinable_def stop_def)
qed

end
