(* ===== verification/Server_Events.thy ===== *)
theory Server_Events
  imports Server_Loop
begin

text \<open>
  What the network thread does with the kernel's events: pending connections (the accept loop, with
  its termination when the queue is finite and its livelock when \<open>accept\<close> keeps failing) and
  readable, failed or hung-up clients.
\<close>

unbundle bit_operations_syntax

section \<open>Marking by identifier\<close>

lemma remove_client_at:
  assumes "id_inv s" and "i < length (srv_clients s)" and "srv_clients s ! i = Some c"
    and "ci_id c' = ci_id c"
  shows "remove_client (ci_id c) (s\<lparr>srv_ec := ec, srv_clients := (srv_clients s)[i := Some c']\<rparr>)
    = Inr (mark i c' (s\<lparr>srv_ec := ec\<rparr>))"
proof -
  let ?s = "s\<lparr>srv_ec := ec, srv_clients := (srv_clients s)[i := Some c']\<rparr>"
  have n: "None \<notin> set (srv_clients s)" "distinct (map ci_id (infos (srv_clients s)))"
    using assms(1) by (simp_all add: id_inv_def)
  have "client_info_from_id ?s (ci_id c') = Inr (Some (i, c'))"
    using n assms ids_update [OF n(1) assms(2,3), of c'] by (intro by_id.unique) (simp_all add: not_null_update)
  then show ?thesis using assms(4) by (simp add: remove_client_def mark_def)
qed

section \<open>Events of clients\<close>



section \<open>The accept loop\<close>

text \<open>Once the server's shared error code is set, no further client is ever accepted: a connection
  the kernel hands over is shut down and closed at once, no handler is called, and table, poll group
  and identifiers stay as they are.\<close>

lemma accept_client_sticky:
  assumes "ec_bool (srv_ec s)" and "is_open (srv_acceptor s)"
    and "sys_accept E (acc_socket (srv_acceptor s)) w = ((r, ad, n), w0)" and "r \<noteq> -1" and "r \<noteq> 0"
    and "accept_client (traced E) s (w, t) = Some (Inr (s', (w', t')))"
  shows "s' = s \<and> t' = t @ [Ev_accept (acc_socket (srv_acceptor s)) r, Ev_getsockname r,
      Ev_getsockopt r SOL_SOCKET SO_PROTOCOL, Ev_shutdown r SHUT_RDWR, Ev_close r]"
proof -
  obtain conn ec v where ac: "accept_ec (traced E) (srv_acceptor s) (srv_ec s) (w, t) = Inr (conn, ec, v)"
    using assms(6) by (auto simp: accept_client_def bind_simps Let_def)
  then obtain re where re: "from_native_socket (traced E) r re (w0, t @ [Ev_accept (acc_socket (srv_acceptor s)) r]) = Inr (conn, v)"
    and ec: "ec = srv_ec s"
    using assms(2-4) by (auto simp: accept_ec_def traced_simps bind_simps)
  then have conn: "conn_socket conn = r" by (simp add: from_native_socket_fd)
  obtain w1 t1 where v: "v = (w1, t1)" by fastforce
  have t1: "t1 = t @ [Ev_accept (acc_socket (srv_acceptor s)) r, Ev_getsockname r, Ev_getsockopt r SOL_SOCKET SO_PROTOCOL]"
    using re get_endpoint_traced [of E r True w0 "t @ [Ev_accept (acc_socket (srv_acceptor s)) r]" _ w1 t1]
    by (auto simp: from_native_socket_def get_local_endpoint_def bind_simps Let_def v)
  obtain w2 where "connection_destroy (traced E) conn (w1, t1) = (w2, t1 @ [Ev_shutdown r SHUT_RDWR, Ev_close r])"
    using disconnect_traced [of conn E w1 t1] conn assms(5) by (auto simp: connection_destroy_def is_connected_def)
  with accept_client_fails [OF ac] assms(1,6) ec v t1 show ?thesis by simp
qed

text \<open>C36: the accept loop never returns if the kernel keeps reporting a pending connection that it
  cannot hand over, as it does when the process has no free descriptor: the failed \<open>accept\<close> is
  retried without end, and no client is served meanwhile.\<close>

theorem accept_loop_livelock:
  assumes "srv_running s" and "is_open (srv_acceptor s)" and "w \<in> W"
    and "\<And>w. w \<in> W \<Longrightarrow> \<exists>w1 \<in> W. has_pending_connection E (srv_acceptor s) w = (True, w1)"
    and "\<And>w. w \<in> W \<Longrightarrow> \<exists>ad n. \<exists>w1 \<in> W. sys_accept E (acc_socket (srv_acceptor s)) w = ((-1, ad, n), w1) \<and> 0 < sys_errno E w1"
  shows "handle_incoming_connections E s w = None"
proof -
  let ?P = "\<lambda>E' t w (r :: fault + 'a server \<times> 'a). E' = E \<longrightarrow> srv_running t \<longrightarrow> srv_acceptor t = srv_acceptor s \<longrightarrow> w \<notin> W"
  have step: "\<exists>ec w1. w1 \<in> W \<and> accept_client E t w = Some (Inr (t\<lparr>srv_ec := ec\<rparr>, w1))"
    if acc: "srv_acceptor t = srv_acceptor s" and w: "w \<in> W" for t w
  proof -
    obtain ad n w1 where w1: "w1 \<in> W" "sys_accept E (acc_socket (srv_acceptor s)) w = ((-1, ad, n), w1)" "0 < sys_errno E w1"
      using assms(5) [OF w] by blast
    then have "accept_ec E (srv_acceptor t) (srv_ec t) w = Inr (connection_new, sys_errno E w1, w1)"
      using assms(2) acc by (simp add: accept_ec_def)
    from accept_client_fails [OF this] w1 show ?thesis by (auto simp: ec_bool_def connection_destroy_def)
  qed
  have "?P E s w r" if "handle_incoming_connections E s w = Some r" for r
    using that
  proof (rule handle_incoming_connections.raw_induct [where P = ?P, rotated])
    fix rec E' t and w :: 'a and y
    assume IH: "\<And>E' t w y. rec E' t w = Some y \<Longrightarrow> ?P E' t w y"
      and eq: "(if srv_running t then case has_pending_connection E' (srv_acceptor t) w of
          (pending, w1) \<Rightarrow> if \<not> pending then Some (Inr (t, w1))
             else dbind (accept_client E' t w1) (\<lambda>r. rec E' (fst r) (snd r))
        else Some (Inr (t, w))) = Some y"
    show "?P E' t w y"
    proof (intro impI notI)
      assume *: "E' = E" "srv_running t" "srv_acceptor t = srv_acceptor s" "w \<in> W"
      obtain w1 where w1: "w1 \<in> W" "has_pending_connection E (srv_acceptor s) w = (True, w1)"
        using assms(4) [OF *(4)] by blast
      obtain ec w2 where "w2 \<in> W" "accept_client E t w1 = Some (Inr (t\<lparr>srv_ec := ec\<rparr>, w2))"
        using step [OF *(3) w1(1)] by blast
      with eq * w1 IH [of E "t\<lparr>srv_ec := ec\<rparr>" w2 y] show False by simp
    qed
  qed
  with assms(1,3) show ?thesis by (cases "handle_incoming_connections E s w") auto
qed

theorem accept_loop_livelock_witness:
  "handle_incoming_connections (sim\<lparr>sys_accept := \<lambda>fd k. ((-1, replicate 128 NUL, 128), k\<lparr>k_errno := 24\<rparr>)\<rparr>)
     (ex_server sim []) (k0\<lparr>k_listening := [3], k_backlog := 1\<rparr>) = None"
proof (rule accept_loop_livelock)
  let ?E = "sim\<lparr>sys_accept := \<lambda>fd k. ((-1, replicate 128 NUL, 128), k\<lparr>k_errno := 24\<rparr>)\<rparr>"
  let ?W = "{k. 3 \<in> set (k_listening k) \<and> 0 < k_backlog k}"
  show "k0\<lparr>k_listening := [3], k_backlog := 1\<rparr> \<in> ?W" by simp
  show "\<exists>w1 \<in> ?W. has_pending_connection ?E (srv_acceptor (ex_server sim [])) w = (True, w1)" if "w \<in> ?W" for w
    using that by (simp add: has_pending_connection_def poll_socket_def ex_server_def sim_calls sim_revents_def
        ssm_from_revents_def)
qed (simp_all add: ex_server_def is_open_def sim_calls)

text \<open>A kernel that has a finite queue of connections on the listening descriptor, none of which fails,
  and to which none is added while they are accepted: \<open>q\<close> is the length of the queue in the worlds
  \<open>V\<close>.\<close>

definition queue_contract :: "'w env \<Rightarrow> socket_type \<Rightarrow> ('w \<Rightarrow> bool) \<Rightarrow> ('w \<Rightarrow> nat) \<Rightarrow> bool" where
  "queue_contract E fd V q \<longleftrightarrow> (\<forall>w. V w \<longrightarrow>
     (case sys_poll E [poll_request fd] 0 w of ((n, f), w') \<Rightarrow>
        V w' \<and> q w' = q w \<and> (0 < n \<and> scast (f 0) AND POLLIN \<noteq> (0 :: 32 word) \<longleftrightarrow> 0 < q w))
   \<and> (0 < q w \<longrightarrow> (case sys_accept E fd w of ((r, ad, n), w') \<Rightarrow>
        V w' \<and> r \<noteq> -1 \<and> n \<le> length ad \<and> Suc (q w') = q w))
   \<and> (\<forall>fd'. case sys_getsockname E fd' w of ((r, ad, n), w') \<Rightarrow> V w' \<and> n \<le> length ad \<and> q w' = q w)
   \<and> (\<forall>fd' l n v. case sys_getsockopt E fd' l n v w of ((r, p), w') \<Rightarrow> V w' \<and> q w' = q w))"

lemma queue_contractD:
  assumes "queue_contract E fd V q" and "V w"
  shows "sys_poll E [poll_request fd] 0 w = ((m, f), w') \<Longrightarrow>
      V w' \<and> q w' = q w \<and> (0 < m \<and> scast (f 0) AND POLLIN \<noteq> (0 :: 32 word) \<longleftrightarrow> 0 < q w)"
    and "0 < q w \<Longrightarrow> sys_accept E fd w = ((r, ad, n), w') \<Longrightarrow> V w' \<and> r \<noteq> -1 \<and> n \<le> length ad \<and> Suc (q w') = q w"
    and "sys_getsockname E fd' w = ((r, ad, n), w') \<Longrightarrow> V w' \<and> n \<le> length ad \<and> q w' = q w"
    and "sys_getsockopt E fd' l k v w = ((r, p), w') \<Longrightarrow> V w' \<and> q w' = q w"
proof -
  note c = assms(1) [unfolded queue_contract_def, rule_format, OF assms(2)]
  note c3 = c [THEN conjunct2, THEN conjunct2]
  show "V w' \<and> q w' = q w \<and> (0 < m \<and> scast (f 0) AND POLLIN \<noteq> (0 :: 32 word) \<longleftrightarrow> 0 < q w)"
    if "sys_poll E [poll_request fd] 0 w = ((m, f), w')"
    using conjunct1 [OF c] unfolding that by simp
  show "V w' \<and> r \<noteq> -1 \<and> n \<le> length ad \<and> Suc (q w') = q w" if "0 < q w" "sys_accept E fd w = ((r, ad, n), w')"
    using c [THEN conjunct2, THEN conjunct1, rule_format, OF that(1)] unfolding that(2) by simp
  show "V w' \<and> n \<le> length ad \<and> q w' = q w" if "sys_getsockname E fd' w = ((r, ad, n), w')"
    using c3 [THEN conjunct1, rule_format, of fd'] unfolding that by simp
  show "V w' \<and> q w' = q w" if "sys_getsockopt E fd' l k v w = ((r, p), w')"
    using c3 [THEN conjunct2, rule_format, of fd' l k v] unfolding that by simp
qed

lemma queue_accept:
  assumes "queue_contract E (acc_socket a) V q" and "V w" and "0 < q w" and "is_open a"
  shows "\<exists>conn w'. accept_ec E a ec w = Inr (conn, ec, w') \<and> V w' \<and> Suc (q w') = q w"
proof -
  obtain r ad n w1 where ac: "sys_accept E (acc_socket a) w = ((r, ad, n), w1)" by (metis prod.exhaust)
  obtain r2 ad2 n2 w2 where gn: "sys_getsockname E r w1 = ((r2, ad2, n2), w2)" by (metis prod.exhaust)
  obtain r3 p w3 where gs: "sys_getsockopt E r SOL_SOCKET SO_PROTOCOL 0 w2 = ((r3, p), w3)" by (metis prod.exhaust)
  have 1: "V w1" "r \<noteq> -1" "n \<le> length ad" "Suc (q w1) = q w"
    using queue_contractD(2) [OF assms(1-3) ac] by simp_all
  have 2: "V w2" "n2 \<le> length ad2" "q w2 = q w1"
    using queue_contractD(3) [OF assms(1) 1(1) gn] by simp_all
  have 3: "V w3" "q w3 = q w2"
    using queue_contractD(4) [OF assms(1) 2(1) gs] by simp_all
  show ?thesis
    using 1 2 3 ac gn gs assms(4) by (simp add: accept_ec_def from_native_address_simps from_native_socket_def
        get_local_endpoint_def get_endpoint_def)
qed

lemma queue_pending:
  assumes "bitmask_lib E" and "queue_contract E (acc_socket a) V q" and "V w"
  shows "\<exists>w'. has_pending_connection E a w = (0 < q w, w') \<and> V w' \<and> q w' = q w"
proof -
  obtain m f w' where p: "sys_poll E [poll_request (acc_socket a)] 0 w = ((m, f), w')" by (metis prod.exhaust)
  from poll_socket_readable [OF assms(1) p] queue_contractD(1) [OF assms(2,3) p] show ?thesis
    by (auto simp: has_pending_connection_def)
qed

lemma sim_queue_contract: "queue_contract sim fd (\<lambda>k. fd \<in> set (k_listening k) \<and> 0 < k_next k) k_backlog"
  by (simp add: queue_contract_def sim_calls poll_request_def sim_revents_def sim_addr_def)

text \<open>C15: if the kernel has \<open>q\<close> connections queued, all of them good, and the connect handler makes no
  calls on the server, the accept loop returns, the queue is then empty, and exactly \<open>q\<close> clients have
  been added behind the old ones, with consecutive identifiers from the next free one on, all of them
  connected and registered with the poll group.\<close>

theorem accept_loop_drains:
  assumes "bitmask_lib E" and "queue_contract E (acc_socket (srv_acceptor s)) V q" and "V w"
    and "is_running s" and "is_open (srv_acceptor s)" and "\<not> ec_bool (srv_ec s)"
    and "srv_on_connect s = Some h" and "\<And>k w. V w \<Longrightarrow> fst (h k w) = [] \<and> V (snd (h k w)) \<and> q (snd (h k w)) = q w"
  shows "\<exists>s' w' new. handle_incoming_connections E s w = Some (Inr (s', w')) \<and> q w' = 0
    \<and> srv_clients s' = srv_clients s @ map Some new
    \<and> map ci_id new = map (\<lambda>i. next_available_id s + of_nat i) [0..<q w]
    \<and> list_all ci_connected new \<and> pg_fds (srv_poll s') = pg_fds (srv_poll s) @ map ci_fd new
    \<and> next_available_id s' = next_available_id s + of_nat (q w)"
  using assms(2-7)
proof (induction "q w" arbitrary: s w)
  case 0
  from queue_pending [OF assms(1) "0.prems"(1,2)] obtain w' where
    "has_pending_connection E (srv_acceptor s) w = (False, w')" "q w' = 0" using "0.hyps" by auto
  then show ?case
    using "0.hyps" "0.prems"(3) by (intro exI [of _ s] exI [of _ w'] exI [of _ "[]"])
      (simp add: handle_incoming_connections.simps is_running_def)
next
  case (Suc m)
  obtain w1 where w1: "has_pending_connection E (srv_acceptor s) w = (True, w1)" "V w1" "q w1 = Suc m"
    using queue_pending [OF assms(1) Suc.prems(1,2)] Suc.hyps(2) by auto
  obtain conn w2 where w2: "accept_ec E (srv_acceptor s) (srv_ec s) w1 = Inr (conn, srv_ec s, w2)" "V w2" "q w2 = m"
    using queue_accept [OF Suc.prems(1) w1(2) _ Suc.prems(4), of "srv_ec s"] w1(3) by auto
  let ?s = "add_client conn (srv_ec s) s"
  obtain w3 where w3: "h (next_available_id s) w2 = ([], w3)" "V w3" "q w3 = m"
    using assms(8) [OF w2(2), of "next_available_id s"] w2(3) by (metis prod.collapse)
  have "accept_client E s w1 = Some (Inr (?s, w3))"
    using accept_client_succeeds [OF w2(1) Suc.prems(5)] Suc.prems(6) w3(1) by (simp add: invoke_def)
  then have run: "handle_incoming_connections E s w = handle_incoming_connections E ?s w3"
    using Suc.prems(3) w1(1) by (subst handle_incoming_connections.simps) (simp add: is_running_def)
  have pre: "srv_acceptor ?s = srv_acceptor s" "is_running ?s" "srv_ec ?s = srv_ec s" "srv_on_connect ?s = Some h"
    using Suc.prems by (simp_all add: add_client_def is_running_def)
  obtain s' w' new where IH: "handle_incoming_connections E ?s w3 = Some (Inr (s', w'))" "q w' = 0"
    "srv_clients s' = srv_clients ?s @ map Some new"
    "map ci_id new = map (\<lambda>i. next_available_id ?s + of_nat i) [0..<m]"
    "list_all ci_connected new" "pg_fds (srv_poll s') = pg_fds (srv_poll ?s) @ map ci_fd new"
    "next_available_id s' = next_available_id ?s + of_nat m"
    using Suc.hyps(1) [of w3 ?s] w3 pre Suc.prems by auto
  let ?c = "\<lparr>ci_id = next_available_id s, ci_conn = conn, ci_fd = native_socket conn, ci_connected = True\<rparr>"
  have "map ci_id (?c # new) = map (\<lambda>i. next_available_id s + of_nat i) [0..<Suc m]"
    unfolding upt_conv_Cons [OF zero_less_Suc] map_Suc_upt [symmetric] using IH(4)
    by (simp add: add_client_def add.assoc)
  then show ?case
    using IH run unfolding Suc.hyps(2) [symmetric] by (intro exI [of _ s'] exI [of _ w'] exI [of _ "?c # new"])
      (simp add: add_client_def pg_fds_def add_socket_def add.assoc del: upt_Suc)
qed

theorem accept_loop_drains_witness:
  "\<exists>s w. handle_incoming_connections sim (ex_server sim []) (k0\<lparr>k_next := 9, k_listening := [3], k_backlog := 2\<rparr>) =
      Some (Inr (s, w)) \<and> k_backlog w = 0 \<and> map ci_id (infos (srv_clients s)) = [1, 2]"
proof -
  let ?s = "ex_server sim []" and ?k = "k0\<lparr>k_next := 9, k_listening := [3], k_backlog := 2\<rparr>"
  have "\<exists>s' w' new. handle_incoming_connections sim ?s ?k = Some (Inr (s', w')) \<and> k_backlog w' = 0
    \<and> srv_clients s' = srv_clients ?s @ map Some new
    \<and> map ci_id new = map (\<lambda>i. next_available_id ?s + of_nat i) [0..<k_backlog ?k]
    \<and> list_all ci_connected new \<and> pg_fds (srv_poll s') = pg_fds (srv_poll ?s) @ map ci_fd new
    \<and> next_available_id s' = next_available_id ?s + of_nat (k_backlog ?k)"
    by (rule accept_loop_drains [OF sim_bitmask_lib sim_queue_contract, where h = "\<lambda>k w. ([], w)"])
      (simp_all add: ex_server_def is_running_def is_open_def server_new_def)
  then show ?thesis
    by (auto simp: ex_server_def server_new_def upt_rec [of _ 2] upt_rec [of _ "Suc (Suc 0)"])
qed

end
