(* ===== verification/Runs.thy ===== *)
theory Runs
  imports Yonaa_Prelude
begin

text \<open>
  Runs of labelled step relations, as the systems of two threads use them. \<open>kept_by\<close> is the interface of a
  predicate that every step keeps; \<open>phased\<close> relates the phases of a thread to the sequential function
  that does all its work: what is left to do is the same before and after a step of the thread alone.
\<close>

inductive runs :: "('c \<Rightarrow> 'l \<Rightarrow> 'c \<Rightarrow> bool) \<Rightarrow> 'c \<Rightarrow> 'l list \<Rightarrow> 'c \<Rightarrow> bool" for step where
  nil: "runs step c [] c"
| cons: "step c l c' \<Longrightarrow> runs step c' ls c'' \<Longrightarrow> runs step c (l # ls) c''"

inductive_cases runs_ConsE: "runs step c (l # ls) c'"
inductive_simps runs_Nil [simp]: "runs step c [] c'"

lemma runs_append: "runs step c ls c' \<Longrightarrow> runs step c' ls' c'' \<Longrightarrow> runs step c (ls @ ls') c''"
  by (induction rule: runs.induct) (auto intro: runs.cons)

lemma runs_one: "step c l c' \<Longrightarrow> runs step c [l] c'"
  by (rule runs.cons [OF _ runs.nil])

lemma runs_replicate_Suc:
  "step c l c' \<Longrightarrow> runs step c' (replicate n l) c'' \<Longrightarrow> runs step c (replicate (Suc n) l) c''"
  by (auto intro: runs.cons)

lemma runs_restrict:
  "runs step c ls c' \<Longrightarrow> \<forall>l \<in> set ls. ok l \<Longrightarrow> runs (\<lambda>c l c'. step c l c' \<and> ok l) c ls c'"
  by (induction rule: runs.induct) (auto intro: runs.intros)

lemma runs_replicate_add:
  assumes "runs step c (replicate m l) c'" and "runs step c' (replicate n l) c''"
  shows "runs step c (replicate (m + n) l) c''"
  unfolding replicate_add by (rule runs_append [OF assms])

locale kept_by =
  fixes step :: "'c \<Rightarrow> 'l \<Rightarrow> 'c \<Rightarrow> bool" and I :: "'c \<Rightarrow> bool"
  assumes step_keeps: "step c l c' \<Longrightarrow> I c \<Longrightarrow> I c'"
begin

lemma runs_keep: "runs step c ls c' \<Longrightarrow> I c \<Longrightarrow> I c'"
  by (induction rule: runs.induct) (auto dest: step_keeps)

end

locale phased =
  fixes step :: "'c \<Rightarrow> 'l \<Rightarrow> 'c \<Rightarrow> bool" and net :: 'l and rest :: "'c \<Rightarrow> 'r"
  assumes rest_step: "step c net c' \<Longrightarrow> rest c = rest c'"
begin

lemma rest_runs: "runs step c (replicate n net) c' \<Longrightarrow> rest c = rest c'"
proof (induction n arbitrary: c)
  case (Suc n)
  then obtain c1 where "step c net c1" "runs step c1 (replicate n net) c'" by (auto elim: runs_ConsE)
  with Suc.IH rest_step show ?case by metis
qed simp

end

end
