(* ===== verification/Server_System.thy ===== *)
theory Server_System
  imports Server_Events Runs
begin

text \<open>
  The server as a system of two threads: the user's thread, which calls \<open>run\<close>, \<open>stop\<close>,
  \<open>message_client\<close>, \<open>message_all_clients\<close> and \<open>remove_client\<close> at any time, and the network thread,
  which works through the phases of \<open>network_thread_function_\<close>. A step of the relation \<open>sys_step\<close> is
  one call of the user's thread or one of the member functions the network thread calls, and the two
  threads are interleaved in every possible way at this granularity. The code does not protect the
  fields the threads share; that a step is not disturbed by the other thread is an assumption of the
  model.
\<close>

section \<open>Model\<close>

datatype phase =
    Ph_idle
  | Ph_starting
  | Ph_loop
  | Ph_connections
  | Ph_messages
  | Ph_disconnected
  | Ph_closing
  | Ph_done
  | Ph_dead fault

datatype label = L_run | L_user api_call | L_net

type_synonym 'w config = "phase \<times> 'w server \<times> 'w"

text \<open>The step of the network thread in a phase, \<open>None\<close> if it does not return.\<close>

fun net_step :: "'w env \<Rightarrow> phase \<Rightarrow> 'w server \<Rightarrow> 'w \<Rightarrow> (phase \<times> 'w server \<times> 'w) run" where
  "net_step E Ph_starting s w =
     dbind (Some (network_thread_start E s w)) (\<lambda>(s1, w1). Some (Inr (Ph_loop, s1, w1)))"
| "net_step E Ph_loop s w = Some (Inr (if srv_running s then Ph_connections else Ph_closing, s, w))"
| "net_step E Ph_connections s w =
     dbind (handle_incoming_connections E s w) (\<lambda>(s1, w1). Some (Inr (Ph_messages, s1, w1)))"
| "net_step E Ph_messages s w =
     dbind (handle_incoming_messages E s w) (\<lambda>(s1, w1). Some (Inr (Ph_disconnected, s1, w1)))"
| "net_step E Ph_disconnected s w =
     dbind (handle_disconnected_clients E s w) (\<lambda>(s1, w1). Some (Inr (Ph_loop, s1, w1)))"
| "net_step E Ph_closing s w =
     (case close_acceptor E (srv_acceptor s) w of
        (acc, w1) \<Rightarrow> Some (Inr (Ph_done, s\<lparr>srv_acceptor := acc, srv_thread := Thread_finished\<rparr>, w1)))"
| "net_step E p s w = None"

fun alive :: "phase \<Rightarrow> bool" where
  "alive (Ph_dead f) = False"
| "alive _ = True"

inductive sys_step :: "'w env \<Rightarrow> 'w config \<Rightarrow> label \<Rightarrow> 'w config \<Rightarrow> bool" for E where
  run_started: "run_server s = Inr s' \<Longrightarrow> \<not> srv_running s \<Longrightarrow> alive p \<Longrightarrow> sys_step E (p, s, w) L_run (Ph_starting, s', w)"
| run_ignored: "run_server s = Inr s' \<Longrightarrow> srv_running s \<Longrightarrow> alive p \<Longrightarrow> sys_step E (p, s, w) L_run (p, s', w)"
| run_fault: "run_server s = Inl f \<Longrightarrow> alive p \<Longrightarrow> sys_step E (p, s, w) L_run (Ph_dead f, s, w)"
| user: "run_call E a s w = Some (Inr (s', w')) \<Longrightarrow> alive p \<Longrightarrow> sys_step E (p, s, w) (L_user a) (p, s', w')"
| user_fault: "run_call E a s w = Some (Inl f) \<Longrightarrow> alive p \<Longrightarrow> sys_step E (p, s, w) (L_user a) (Ph_dead f, s, w)"
| net: "net_step E p s w = Some (Inr cfg) \<Longrightarrow> sys_step E (p, s, w) L_net cfg"
| net_fault: "net_step E p s w = Some (Inl f) \<Longrightarrow> sys_step E (p, s, w) L_net (Ph_dead f, s, w)"

abbreviation sys_steps :: "'w env \<Rightarrow> 'w config \<Rightarrow> label list \<Rightarrow> 'w config \<Rightarrow> bool" where
  "sys_steps E \<equiv> runs (sys_step E)"

inductive_cases sys_step_netE: "sys_step E (p, s, w) L_net cfg"

section \<open>The network thread alone\<close>

text \<open>What the sequential thread function still has to do in each phase.\<close>

definition close_and_end :: "'w env \<Rightarrow> 'w server \<times> 'w \<Rightarrow> ('w server \<times> 'w) run" where
  "close_and_end E = (\<lambda>(s, w). case close_acceptor E (srv_acceptor s) w of
     (acc, w1) \<Rightarrow> Some (Inr (s\<lparr>srv_acceptor := acc, srv_thread := Thread_finished\<rparr>, w1)))"

definition loop_and_end :: "'w env \<Rightarrow> 'w server \<times> 'w \<Rightarrow> ('w server \<times> 'w) run" where
  "loop_and_end E = (\<lambda>(s, w). dbind (server_loop E s w) (close_and_end E))"

fun remaining :: "'w env \<Rightarrow> phase \<Rightarrow> 'w server \<Rightarrow> 'w \<Rightarrow> ('w server \<times> 'w) run" where
  "remaining E Ph_starting s w = network_thread_function E s w"
| "remaining E Ph_loop s w = loop_and_end E (s, w)"
| "remaining E Ph_connections s w =
     dbind (handle_incoming_connections E s w) (\<lambda>(s1, w1). dbind (handle_incoming_messages E s1 w1) (\<lambda>(s2, w2).
       dbind (handle_disconnected_clients E s2 w2) (loop_and_end E)))"
| "remaining E Ph_messages s w =
     dbind (handle_incoming_messages E s w) (\<lambda>(s2, w2). dbind (handle_disconnected_clients E s2 w2) (loop_and_end E))"
| "remaining E Ph_disconnected s w = dbind (handle_disconnected_clients E s w) (loop_and_end E)"
| "remaining E Ph_closing s w = close_and_end E (s, w)"
| "remaining E Ph_done s w = Some (Inr (s, w))"
| "remaining E Ph_idle s w = None"
| "remaining E (Ph_dead f) s w = Some (Inl f)"

lemma loop_and_end_unfold:
  "loop_and_end E (s, w) = (if srv_running s then remaining E Ph_connections s w else close_and_end E (s, w))"
proof (cases "srv_running s")
  case True
  have "loop_and_end E (s, w) = dbind (tick E s w) (loop_and_end E)"
    unfolding loop_and_end_def prod.case using True
    by (subst server_loop.simps) (simp add: dbind_assoc case_prod_beta')
  also have "\<dots> = remaining E Ph_connections s w"
    by (simp add: tick_def dbind_assoc case_prod_beta')
  finally show ?thesis using True by simp
next
  case False
  then show ?thesis by (simp add: loop_and_end_def server_loop.simps)
qed

lemma remaining_step:
  assumes "net_step E p s w = Some (Inr (p', s', w'))"
  shows "remaining E p s w = remaining E p' s' w'"
proof (cases p)
  case Ph_starting
  with assms show ?thesis
    by (auto simp: bind_simps network_thread_function_def loop_and_end_def close_and_end_def)
next
  case Ph_loop
  with assms show ?thesis by (auto simp: loop_and_end_unfold split: if_splits)
qed (use assms in \<open>auto simp: bind_simps close_and_end_def split: prod.splits\<close>)

lemma remaining_fault:
  "net_step E p s w = Some (Inl f) \<Longrightarrow> remaining E p s w = Some (Inl f)"
  by (cases p) (auto simp: bind_simps network_thread_function_def split: prod.splits)

interpretation server_phases: phased "sys_step E" L_net "\<lambda>(p, s, w). remaining E p s w" for E :: "'w env"
  by unfold_locales (auto elim!: sys_step_netE dest: remaining_step remaining_fault)

text \<open>Conversely, the loop of the thread function is a sequence of steps.\<close>

lemma net_steps_Cons:
  "net_step E p s w = Some (Inr c) \<Longrightarrow> sys_steps E c (replicate n L_net) c' \<Longrightarrow>
     sys_steps E (p, s, w) (replicate (Suc n) L_net) c'"
  by (rule runs_replicate_Suc [where step = "sys_step E"]) (rule sys_step.net)

lemma tick_steps:
  assumes "srv_running s" and "tick E s w = Some (Inr (s', w'))"
  shows "sys_steps E (Ph_loop, s, w) (replicate 4 L_net) (Ph_loop, s', w')"
proof -
  obtain s1 w1 s2 w2 where "handle_incoming_connections E s w = Some (Inr (s1, w1))"
    "handle_incoming_messages E s1 w1 = Some (Inr (s2, w2))"
    "handle_disconnected_clients E s2 w2 = Some (Inr (s', w'))"
    using assms(2) by (auto simp: tick_def bind_simps)
  with assms(1) have "net_step E Ph_loop s w = Some (Inr (Ph_connections, s, w))"
    "net_step E Ph_connections s w = Some (Inr (Ph_messages, s1, w1))"
    "net_step E Ph_messages s1 w1 = Some (Inr (Ph_disconnected, s2, w2))"
    "net_step E Ph_disconnected s2 w2 = Some (Inr (Ph_loop, s', w'))" by simp_all
  then show ?thesis
    by (auto simp: numeral_eq_Suc intro!: runs.intros sys_step.net)
qed

lemma server_loop_steps:
  assumes "server_loop E s w = Some (Inr (s', w'))"
  shows "\<exists>n. sys_steps E (Ph_loop, s, w) (replicate n L_net) (Ph_closing, s', w')"
proof -
  let ?P = "\<lambda>E s w r. \<forall>s' w'. r = Inr (s', w') \<longrightarrow> (\<exists>n. sys_steps E (Ph_loop, s, w) (replicate n L_net) (Ph_closing, s', w'))"
  have "?P E s w r" if "server_loop E s w = Some r" for r
    using that
  proof (rule server_loop.raw_induct [where P = ?P, rotated])
    fix rec E s and w :: 'a and r
    assume IH: "\<And>E s w r. rec E s w = Some r \<Longrightarrow> ?P E s w r"
      and eq: "(if srv_running s then dbind (tick E s w) (\<lambda>r. rec E (fst r) (snd r)) else Some (Inr (s, w))) = Some r"
    show "?P E s w r"
    proof (cases "srv_running s")
      case False
      then have "net_step E Ph_loop s w = Some (Inr (Ph_closing, s, w))" by simp
      from net_steps_Cons [OF this, of 0] False eq show ?thesis by (auto intro: exI [of _ "Suc 0"])
    next
      case True
      show ?thesis
      proof (intro allI impI)
        fix s' w'
        assume "r = Inr (s', w')"
        with eq True obtain s1 w1 where t: "tick E s w = Some (Inr (s1, w1))"
          and "rec E s1 w1 = Some (Inr (s', w'))" by (auto simp: bind_simps)
        with IH obtain n where "sys_steps E (Ph_loop, s1, w1) (replicate n L_net) (Ph_closing, s', w')" by blast
        with tick_steps [OF True t]
        have "sys_steps E (Ph_loop, s, w) (replicate (4 + n) L_net) (Ph_closing, s', w')"
          unfolding replicate_add by (rule runs_append)
        then show "\<exists>n. sys_steps E (Ph_loop, s, w) (replicate n L_net) (Ph_closing, s', w')" by blast
      qed
    qed
  qed
  with assms show ?thesis by blast
qed


section \<open>Both threads\<close>

interpretation frame_net: net_invariant
  "\<lambda>s. None \<notin> set (srv_clients s) \<and> srv_acceptor s = a \<and> srv_thread s = th" "\<lambda>_. True" for a th
  by unfold_locales (auto simp: mark_def stop_def add_client_def not_null_update list_all_iff dest: in_set_takeD)

interpretation halted_api: api_invariant "\<lambda>s. \<not> srv_running s" "\<lambda>_. True"
  by unfold_locales (auto simp: mark_def stop_def)

text \<open>What holds of the server in each phase of its thread.\<close>

fun phase_ok :: "phase \<Rightarrow> 'w server \<Rightarrow> bool" where
  "phase_ok Ph_idle s \<longleftrightarrow> srv_thread s = No_thread \<and> \<not> srv_running s"
| "phase_ok Ph_starting s \<longleftrightarrow> srv_thread s = Thread_running \<and> \<not> srv_running s"
| "phase_ok Ph_closing s \<longleftrightarrow> srv_thread s = Thread_running \<and> is_open (srv_acceptor s) \<and> \<not> srv_running s"
| "phase_ok Ph_done s \<longleftrightarrow> srv_thread s = Thread_finished \<and> \<not> is_open (srv_acceptor s) \<and> \<not> srv_running s"
| "phase_ok (Ph_dead f) s \<longleftrightarrow> True"
| "phase_ok _ s \<longleftrightarrow> srv_thread s = Thread_running \<and> is_open (srv_acceptor s)"

definition sys_inv :: "'w config \<Rightarrow> bool" where
  "sys_inv = (\<lambda>(p, s, w). table_inv s \<and> phase_ok p s)"

lemma run_call_frame:
  assumes "table_inv s" and "run_call E a s w = Some (Inr (s', w'))"
  shows "table_inv s' \<and> srv_acceptor s' = srv_acceptor s \<and> srv_thread s' = srv_thread s
    \<and> (\<not> srv_running s \<longrightarrow> \<not> srv_running s')"
proof -
  have "table_inv s'" by (rule table_net.run_call_inv [OF assms(1) _ assms(2)]) simp
  moreover have "None \<notin> set (srv_clients s') \<and> srv_acceptor s' = srv_acceptor s \<and> srv_thread s' = srv_thread s"
    using assms(1) by (intro frame_net.run_call_inv [OF _ _ assms(2)]) (simp_all add: table_inv_def)
  moreover have "\<not> srv_running s \<longrightarrow> \<not> srv_running s'"
    using halted_api.run_call_inv [OF _ _ assms(2)] by blast
  ultimately show ?thesis by blast
qed

lemma phase_ok_frame:
  "phase_ok p s \<Longrightarrow> srv_acceptor s' = srv_acceptor s \<Longrightarrow> srv_thread s' = srv_thread s \<Longrightarrow>
     (\<not> srv_running s \<longrightarrow> \<not> srv_running s') \<Longrightarrow> phase_ok p s'"
  by (cases p) auto

lemma net_step_inv:
  assumes "table_inv s" and "phase_ok p s" and "net_step E p s w = Some (Inr (p', s', w'))"
  shows "table_inv s' \<and> phase_ok p' s'"
proof -
  have n: "None \<notin> set (srv_clients s) \<and> srv_acceptor s = srv_acceptor s \<and> srv_thread s = srv_thread s"
    using assms(1) by (simp add: table_inv_def)
  show ?thesis
  proof (cases p)
    case Ph_starting
    then obtain r where r: "network_thread_start E s w = Inr (s', w')" and p': "p' = Ph_loop"
      using assms(3) by (auto simp: bind_simps)
    from network_thread_start_result [OF r] assms(1,2) Ph_starting p' show ?thesis
      by (auto simp: table_inv_def)
  next
    case Ph_connections
    then have h: "handle_incoming_connections E s w = Some (Inr (s', w'))" and p': "p' = Ph_messages"
      using assms(3) by (auto simp: bind_simps)
    show ?thesis
      using table_net.handle_incoming_connections_inv [OF assms(1) h] frame_net.handle_incoming_connections_inv [OF n h]
        assms(2) Ph_connections p' by simp
  next
    case Ph_messages
    then have h: "handle_incoming_messages E s w = Some (Inr (s', w'))" and p': "p' = Ph_disconnected"
      using assms(3) by (auto simp: bind_simps)
    show ?thesis
      using table_net.handle_incoming_messages_inv [OF assms(1) h] frame_net.handle_incoming_messages_inv [OF n h]
        assms(2) Ph_messages p' by simp
  next
    case Ph_disconnected
    then have h: "handle_disconnected_clients E s w = Some (Inr (s', w'))" and p': "p' = Ph_loop"
      using assms(3) by (auto simp: bind_simps)
    show ?thesis
      using table_net.handle_disconnected_clients_inv [OF assms(1) h] frame_net.handle_disconnected_clients_inv [OF n h]
        assms(2) Ph_disconnected p' by simp
  next
    case Ph_closing
    then obtain acc where c: "close_acceptor E (srv_acceptor s) w = (acc, w')"
      and s': "p' = Ph_done" "s' = s\<lparr>srv_acceptor := acc, srv_thread := Thread_finished\<rparr>"
      using assms(3) by (auto split: prod.splits)
    show ?thesis
      using acc_owner.released [OF c] s' assms(1,2) Ph_closing by (simp add: is_open_def table_inv_def)
  qed (use assms in \<open>auto split: if_splits\<close>)
qed

text \<open>On a well-formed table no call of the user's thread faults.\<close>

lemma remove_client_no_fault: "None \<notin> set (srv_clients s) \<Longrightarrow> remove_client k s \<noteq> Inl f"
  using by_id.total [of s k] by (auto simp: remove_client_def bind_simps split: option.splits)

lemma message_client_no_fault: "None \<notin> set (srv_clients s) \<Longrightarrow> message_client E msg k s w \<noteq> Some (Inl f)"
  using by_id.total [of s k]
  by (auto simp: message_client_def bind_simps Let_def remove_client_no_fault send_ec_no_fault split: option.splits if_splits)

lemma message_each_no_fault:
  "None \<notin> set ps \<Longrightarrow> None \<notin> set (srv_clients s) \<Longrightarrow> message_each E msg x ps s w \<noteq> Some (Inl f)"
proof (induction E msg x ps s w rule: message_each.induct)
  case (3 E msg x c ps s w)
  have "None \<notin> set (srv_clients s1)" if "message_client E msg (ci_id c) s w = Some (Inr (s1, w1))" for s1 w1
    using frame_net.message_client_inv [OF _ that, of "srv_acceptor s" "srv_thread s"] "3.prems"(2) by simp
  with 3 show ?case by (auto simp: bind_simps message_client_no_fault)
qed auto

lemma run_call_no_fault: "None \<notin> set (srv_clients s) \<Longrightarrow> run_call E a s w \<noteq> Some (Inl f)"
  by (cases a) (auto simp: message_all_clients_def bind_simps message_client_no_fault message_each_no_fault
      remove_client_no_fault)

lemma sys_step_inv: "sys_step E c l c' \<Longrightarrow> sys_inv c \<Longrightarrow> sys_inv c'"
proof (induction rule: sys_step.induct)
  case (run_started s s' p w)
  then show ?case
    by (auto simp: sys_inv_def run_server_def joinable_def table_inv_def split: if_splits)
next
  case (run_ignored s s' p w)
  then show ?case by (simp add: run_server_def)
next
  case (user a s w s' w' p)
  then show ?case using run_call_frame [of s E a w s' w'] phase_ok_frame [of p s s'] by (auto simp: sys_inv_def)
next
  case (net p s w cfg)
  then show ?case using net_step_inv [of s p E w] by (cases cfg) (auto simp: sys_inv_def)
qed (auto simp: sys_inv_def)

interpretation sys_kept: kept_by "sys_step E" sys_inv for E :: "'w env"
  by unfold_locales (rule sys_step_inv)



end
