(* ===== verification/Descriptors.thy ===== *)
theory Descriptors
  imports Server_System
begin

text \<open>
  What is assumed of the kernel's descriptors (\<open>fd_contract\<close>), what the calls of a handler leave alone,
  and the invariant that ties the client table and the poll group to the kernel (\<open>sync_inv\<close>): every
  client of the table has a descriptor of its own, that descriptor is open and is the one the client's
  connection owns, and the poll group watches exactly the descriptors of the table, in its order.
\<close>

unbundle bit_operations_syntax

section \<open>The kernel's descriptors\<close>

text \<open>What is known of the kernel's descriptors in a world: whether the world is one the contract speaks
  about, which descriptors are open, and how many connections have been handed over so far.\<close>

record 'w fd_view =
  valid :: "'w \<Rightarrow> bool"
  open_fds :: "'w \<Rightarrow> socket_type set"
  accepted :: "'w \<Rightarrow> nat"

definition keeps :: "'w fd_view \<Rightarrow> 'w \<Rightarrow> 'w \<Rightarrow> bool" where
  "keeps D w w' \<longleftrightarrow> (valid D w \<longrightarrow> valid D w' \<and> open_fds D w \<subseteq> open_fds D w' \<and> accepted D w \<le> accepted D w')"

text \<open>\<open>accept\<close> returns a descriptor that was not open and counts one more connection, or fails with a
  positive error number; \<open>close\<close> closes no descriptor but its argument, and the other calls close
  none. Fewer than \<open>2 ^ 64 - 1\<close> connections are handed over in all.\<close>

definition fd_contract :: "'w env \<Rightarrow> 'w fd_view \<Rightarrow> bool" where
  "fd_contract E D \<longleftrightarrow>
     (\<forall>w ps tm. keeps D w (snd (sys_poll E ps tm w)))
   \<and> (\<forall>w fd bs fl. keeps D w (snd (sys_send E fd bs fl w)))
   \<and> (\<forall>w fd n fl. keeps D w (snd (sys_recv E fd n fl w)))
   \<and> (\<forall>w fd how. keeps D w (snd (sys_shutdown E fd how w)))
   \<and> (\<forall>w fd. keeps D w (snd (sys_getsockname E fd w)))
   \<and> (\<forall>w fd l n v. keeps D w (snd (sys_getsockopt E fd l n v w)))
   \<and> (\<forall>w fd. keeps (D\<lparr>open_fds := \<lambda>w. open_fds D w - {fd}\<rparr>) w (snd (sys_close E fd w)))
   \<and> (\<forall>w fd. keeps D w (snd (sys_accept E fd w)))
   \<and> (\<forall>w fd r ad n w'. valid D w \<longrightarrow> sys_accept E fd w = ((r, ad, n), w') \<longrightarrow>
        (if r = -1 then 0 < sys_errno E w'
         else r \<noteq> 0 \<and> r \<notin> open_fds D w \<and> r \<in> open_fds D w' \<and> accepted D w < accepted D w'))
   \<and> (\<forall>w. valid D w \<longrightarrow> Suc (accepted D w) < 2 ^ 64)"

lemma keeps_refl [simp]: "keeps D w w"
  by (simp add: keeps_def)

lemma keeps_trans: "keeps D w1 w2 \<Longrightarrow> keeps D w2 w3 \<Longrightarrow> keeps D w1 w3"
  by (auto simp: keeps_def)

text \<open>A relation between the world before and after that every \<open>send\<close> of the kernel respects is
  respected by every call of a handler on the server.\<close>

locale send_monotone =
  fixes E :: "'w env" and K :: "'w \<Rightarrow> 'w \<Rightarrow> bool"
  assumes K_refl: "K w w" and K_trans: "K w1 w2 \<Longrightarrow> K w2 w3 \<Longrightarrow> K w1 w3"
    and K_send: "K w (snd (sys_send E fd bs fl w))"
begin

lemma send_loop_K:
  assumes "send_loop E fd buf sent fl ec w = Some (Inr ((), ec', w'))"
  shows "K w w'"
proof -
  let ?P = "\<lambda>E' fd buf sent fl ec w r. E' = E \<longrightarrow> (\<forall>ec' w'. r = Inr ((), ec', w') \<longrightarrow> K w w')"
  have "?P E fd buf sent fl ec w r" if "send_loop E fd buf sent fl ec w = Some r" for r
    using that
  proof (rule send_loop.raw_induct [where P = ?P, rotated])
    fix rec E' fd buf sent fl ec w r
    assume IH: "\<And>E' fd buf sent fl ec w r. rec E' fd buf sent fl ec w = Some r \<Longrightarrow> ?P E' fd buf sent fl ec w r"
      and eq: "(if sent < length buf then case sys_send E' fd (drop sent buf) (or fl MSG_NOSIGNAL) w of
          (x, w1) \<Rightarrow> let send_result = int_of_ssize x in
             if send_result = -1 then Some (Inr ((), sys_errno E' w1, w1))
             else rec E' fd buf (size_add sent send_result) fl ec w1
        else Some (Inr ((), ec, w))) = Some r"
    show "?P E' fd buf sent fl ec w r"
    proof (cases "sent < length buf")
      case False
      with eq show ?thesis by (auto intro: K_refl)
    next
      case True
      obtain x w1 where call: "sys_send E' fd (drop sent buf) (or fl MSG_NOSIGNAL) w = (x, w1)" by fastforce
      have "E' = E \<longrightarrow> K w w1" using K_send [of w fd "drop sent buf" "or fl MSG_NOSIGNAL"] call by auto
      moreover have "(\<forall>ec' w'. r = Inr ((), ec', w') \<longrightarrow> K w1 w')" if "E' = E"
        using eq True call IH that by (auto simp: Let_def K_refl split: if_splits)
      ultimately show ?thesis using K_trans by blast
    qed
  qed
  with assms show ?thesis by blast
qed

lemma send_ec_K: "send_ec E c msg ec fl w = Some (Inr (x, ec', w')) \<Longrightarrow> K w w'"
  by (auto simp: send_ec_def K_refl dest: send_loop_K split: if_splits)

lemma message_client_K: "message_client E msg k s w = Some (Inr (s', w')) \<Longrightarrow> K w w'"
  by (erule message_client_cases) (auto intro: K_refl send_ec_K)

lemma message_each_K: "message_each E msg x ps s w = Some (Inr (s', w')) \<Longrightarrow> K w w'"
proof (induction ps arbitrary: s w)
  case (Cons p ps)
  then show ?case
    by (cases p) (auto simp: bind_simps split: if_splits intro: K_trans dest: message_client_K)
qed (simp add: K_refl)

lemma run_call_K: "run_call E a s w = Some (Inr (s', w')) \<Longrightarrow> K w w'"
  by (cases a) (auto simp: message_all_clients_def bind_simps K_refl dest: message_client_K message_each_K)

lemma run_calls_K: "run_calls E as s w = Some (Inr (s', w')) \<Longrightarrow> K w w'"
  by (induction as arbitrary: s w) (auto simp: bind_simps K_refl intro: K_trans dest: run_call_K)

lemma invoke_K:
  assumes "invoke E h s w = Some (Inr (s', w'))" and "\<And>f. h = Some f \<Longrightarrow> K w (snd (f w))"
  shows "K w w'"
  using assms by (auto simp: invoke_def split: option.splits prod.splits intro: K_trans dest: run_calls_K)

end

interpretation fds: send_monotone E "\<lambda>w w'. fd_contract E D \<longrightarrow> keeps D w w'" for E D
  by unfold_locales (auto intro: keeps_trans simp: fd_contract_def)

section \<open>What a handler leaves alone\<close>

definition marked_from :: "bool \<Rightarrow> client_info \<Rightarrow> client_info \<Rightarrow> bool" where
  "marked_from b c c' \<longleftrightarrow> c' = c \<or> (b \<and> c' = c\<lparr>ci_connected := False\<rparr>)"

definition api_frame :: "'w server \<Rightarrow> 'w server \<Rightarrow> bool" where
  "api_frame s s' \<longleftrightarrow> None \<notin> set (srv_clients s') \<and> srv_poll s' = srv_poll s
     \<and> srv_on_data s' = srv_on_data s \<and> srv_on_connect s' = srv_on_connect s
     \<and> srv_on_disconnect s' = srv_on_disconnect s \<and> next_available_id s' = next_available_id s
     \<and> (srv_has_disconnected s \<longrightarrow> srv_has_disconnected s')
     \<and> list_all2 (marked_from (srv_has_disconnected s')) (infos (srv_clients s)) (infos (srv_clients s'))"

lemma api_frame_refl: "None \<notin> set (srv_clients s) \<Longrightarrow> api_frame s s"
  by (simp add: api_frame_def marked_from_def list.rel_refl)

lemma api_frame_mark:
  assumes "api_frame s0 s" and "i < length (srv_clients s)" and "srv_clients s ! i = Some c"
  shows "api_frame s0 (mark i c s)"
proof -
  have n: "None \<notin> set (srv_clients s)" using assms(1) by (simp add: api_frame_def)
  have r: "list_all2 (marked_from (srv_has_disconnected s)) (infos (srv_clients s0)) (infos (srv_clients s))"
    using assms(1) by (simp add: api_frame_def)
  have i: "i < length (infos (srv_clients s))" "infos (srv_clients s) ! i = c"
    using nth_infos [OF n assms(2)] assms(2,3) n by (simp_all add: length_infos)
  have "list_all2 (marked_from True) (infos (srv_clients s0)) ((infos (srv_clients s))[i := c\<lparr>ci_connected := False\<rparr>])"
    unfolding list_all2_conv_all_nth
  proof (intro conjI allI impI)
    show "length (infos (srv_clients s0)) = length ((infos (srv_clients s))[i := c\<lparr>ci_connected := False\<rparr>])"
      using list_all2_lengthD [OF r] by simp
    fix j
    assume j: "j < length (infos (srv_clients s0))"
    have "marked_from (srv_has_disconnected s) (infos (srv_clients s0) ! j) (infos (srv_clients s) ! j)"
      using r j by (simp add: list_all2_conv_all_nth)
    then show "marked_from True (infos (srv_clients s0) ! j) ((infos (srv_clients s))[i := c\<lparr>ci_connected := False\<rparr>] ! j)"
      using i by (cases "j = i") (auto simp: marked_from_def)
  qed
  then show ?thesis
    using assms(1,2) n by (simp add: api_frame_def mark_def infos_update not_null_update)
qed

interpretation frame_api: api_invariant "api_frame s0" "\<lambda>_. True" for s0
  by unfold_locales (simp_all only: api_frame_mark, simp_all add: api_frame_def stop_def)

lemma invoke_frame:
  assumes "None \<notin> set (srv_clients s)" and "invoke E h s w = Some (Inr (s', w'))"
  shows "api_frame s s'"
  by (rule frame_api.invoke_inv [OF api_frame_refl [OF assms(1)] _ assms(2)]) (simp add: list_all_iff)

section \<open>The invariant\<close>

text \<open>A client whose connection is open has a descriptor the kernel has open; a client whose connection
  is closed is marked for removal.\<close>

definition linked :: "socket_type set \<Rightarrow> client_info \<Rightarrow> bool" where
  "linked os c \<longleftrightarrow> (if conn_socket (ci_conn c) = 0 then \<not> ci_connected c
     else conn_socket (ci_conn c) = ci_fd c \<and> ci_fd c \<in> os)"

definition handlers_keep :: "('w \<Rightarrow> 'w \<Rightarrow> bool) \<Rightarrow> 'w server \<Rightarrow> bool" where
  "handlers_keep K s \<longleftrightarrow>
     (\<forall>h k d w. srv_on_data s = Some h \<longrightarrow> K w (snd (h k d w)))
   \<and> (\<forall>h k w. srv_on_connect s = Some h \<longrightarrow> K w (snd (h k w)))
   \<and> (\<forall>h k w. srv_on_disconnect s = Some h \<longrightarrow> K w (snd (h k w)))"

text \<open>\<open>sync_core\<close> is about the table and the kernel; \<open>sync_inv\<close> adds the poll group, which is out of step
  with the table only while clients are being removed.\<close>

definition sync_core :: "'w fd_view \<Rightarrow> 'w server \<Rightarrow> 'w \<Rightarrow> bool" where
  "sync_core D s w \<longleftrightarrow> valid D w \<and> handlers_keep (keeps D) s
     \<and> id_inv s \<and> 1 \<le> next_available_id s \<and> unat (next_available_id s) \<le> Suc (accepted D w)
     \<and> distinct (map ci_fd (infos (srv_clients s)))
     \<and> list_all (linked (open_fds D w)) (infos (srv_clients s))"

definition sync_inv :: "'w fd_view \<Rightarrow> 'w server \<Rightarrow> 'w \<Rightarrow> bool" where
  "sync_inv D s w \<longleftrightarrow> sync_core D s w \<and> pg_fds (srv_poll s) = map ci_fd (infos (srv_clients s))"

lemmas sync_simps = sync_inv_def sync_core_def

definition all_open :: "'w server \<Rightarrow> bool" where
  "all_open s \<longleftrightarrow> list_all (\<lambda>c. is_connected (ci_conn c)) (infos (srv_clients s))"

lemma marked_from_fields:
  "marked_from b c c' \<Longrightarrow> ci_fd c' = ci_fd c \<and> ci_conn c' = ci_conn c \<and> ci_id c' = ci_id c \<and> (ci_connected c' \<longrightarrow> ci_connected c)
     \<and> (\<not> b \<longrightarrow> c' = c)"
  by (auto simp: marked_from_def)

lemma list_all2_map_eq: "list_all2 R xs ys \<Longrightarrow> (\<And>x y. R x y \<Longrightarrow> f y = f x) \<Longrightarrow> map f ys = map f xs"
  by (induction rule: list_all2_induct) auto

lemma list_all2_list_all: "list_all2 R xs ys \<Longrightarrow> list_all P xs \<Longrightarrow> (\<And>x y. R x y \<Longrightarrow> P x \<Longrightarrow> Q y) \<Longrightarrow> list_all Q ys"
  by (induction rule: list_all2_induct) auto

lemma linked_keeps: "linked os c \<Longrightarrow> marked_from b c c' \<Longrightarrow> os \<subseteq> os' \<Longrightarrow> linked os' c'"
  by (auto simp: linked_def marked_from_def split: if_splits)

lemma sync_no_null: "sync_inv D s w \<Longrightarrow> None \<notin> set (srv_clients s)"
  by (simp add: sync_simps id_inv_def)

lemma id_inv_alt:
  "id_inv s \<longleftrightarrow> None \<notin> set (srv_clients s) \<and> distinct (map ci_id (infos (srv_clients s)))
     \<and> (\<forall>k \<in> set (map ci_id (infos (srv_clients s))). 1 \<le> k \<and> k < next_available_id s)
     \<and> list_all (\<lambda>c. ci_connected c \<or> srv_has_disconnected s) (infos (srv_clients s))"
  by (auto simp: id_inv_def list_all_iff)

lemma api_frame_map:
  assumes "api_frame s s'"
  shows "map ci_fd (infos (srv_clients s')) = map ci_fd (infos (srv_clients s))"
    and "map ci_id (infos (srv_clients s')) = map ci_id (infos (srv_clients s))"
    and "map ci_conn (infos (srv_clients s')) = map ci_conn (infos (srv_clients s))"
proof -
  have r: "list_all2 (marked_from (srv_has_disconnected s')) (infos (srv_clients s)) (infos (srv_clients s'))"
    using assms by (simp add: api_frame_def)
  show "map ci_fd (infos (srv_clients s')) = map ci_fd (infos (srv_clients s))"
    "map ci_id (infos (srv_clients s')) = map ci_id (infos (srv_clients s))"
    "map ci_conn (infos (srv_clients s')) = map ci_conn (infos (srv_clients s))"
    by (rule list_all2_map_eq [OF r], auto dest: marked_from_fields)+
qed

lemma core_frame:
  assumes "sync_core D s w" and "api_frame s s'" and "keeps D w w'"
  shows "sync_core D s' w'"
proof -
  let ?cs = "infos (srv_clients s)" and ?cs' = "infos (srv_clients s')"
  have r: "list_all2 (marked_from (srv_has_disconnected s')) ?cs ?cs'" using assms(2) by (simp add: api_frame_def)
  have w: "valid D w'" "open_fds D w \<subseteq> open_fds D w'" "accepted D w \<le> accepted D w'"
    using assms(1,3) by (auto simp: sync_core_def keeps_def)
  note fds = api_frame_map [OF assms(2)]
  have "list_all (linked (open_fds D w')) ?cs'"
    using assms(1) w(2) by (intro list_all2_list_all [OF r, of "linked (open_fds D w)"])
      (auto simp: sync_core_def intro: linked_keeps)
  moreover have "list_all (\<lambda>c. ci_connected c \<or> srv_has_disconnected s') ?cs'"
    using assms(1,2) by (intro list_all2_list_all [OF r, of "\<lambda>c. ci_connected c \<or> srv_has_disconnected s"])
      (auto simp: sync_core_def id_inv_alt api_frame_def marked_from_def)
  then have "id_inv s'"
    using assms(1,2) fds(2) by (simp add: sync_core_def id_inv_alt api_frame_def del: set_map)
  ultimately show ?thesis
    using assms(1,2) w fds by (simp add: sync_core_def api_frame_def handlers_keep_def)
qed

lemma all_open_map: "all_open s \<longleftrightarrow> list_all is_connected (map ci_conn (infos (srv_clients s)))"
  by (simp add: all_open_def list_all_iff)

lemma sync_frame:
  assumes "sync_inv D s w" and "api_frame s s'" and "keeps D w w'"
  shows "sync_inv D s' w' \<and> (all_open s \<longrightarrow> all_open s')"
  using assms core_frame [OF _ assms(2,3)] api_frame_map [OF assms(2)]
  unfolding sync_inv_def all_open_map by (simp add: api_frame_def)

lemma sync_invoke:
  assumes "fd_contract E D" and "sync_inv D s w" and "invoke E h s w = Some (Inr (s', w'))"
    and "\<And>f. h = Some f \<Longrightarrow> keeps D w (snd (f w))"
  shows "sync_inv D s' w' \<and> (all_open s \<longrightarrow> all_open s')"
proof (rule sync_frame [OF assms(2)])
  show "api_frame s s'" using sync_no_null [OF assms(2)] assms(3) by (rule invoke_frame)
  show "keeps D w w'" using fds.invoke_K [OF assms(3), of D] assms(1,4) by blast
qed

end
