(* ===== verification/Server_Sync.thy ===== *)
theory Server_Sync
  imports Descriptors
begin

text \<open>
  Client table, poll group and kernel in step: every step of the network thread keeps the invariant of the
  theory \<open>Descriptors\<close>. This is what makes \<open>client_info_from_native_socket\<close> find the right client for an
  event.
\<close>

unbundle bit_operations_syntax

section \<open>The steps of the network thread\<close>

lemma fd_contract_keeps:
  assumes "fd_contract E D"
  shows "sys_poll E ps tm w = (x1, w') \<Longrightarrow> keeps D w w'"
    and "sys_recv E fd n fl w = (x2, w') \<Longrightarrow> keeps D w w'"
    and "sys_getsockname E fd w = (x3, w') \<Longrightarrow> keeps D w w'"
    and "sys_getsockopt E fd l m v w = (x4, w') \<Longrightarrow> keeps D w w'"
    and "sys_accept E fd w = (x5, w') \<Longrightarrow> keeps D w w'"
  using assms unfolding fd_contract_def by (metis snd_conv)+

lemma fd_contract_accept:
  assumes "fd_contract E D" and "valid D w" and "sys_accept E fd w = ((r, ad, n), w')"
  shows "if r = -1 then 0 < sys_errno E w'
    else r \<noteq> 0 \<and> r \<notin> open_fds D w \<and> r \<in> open_fds D w' \<and> accepted D w < accepted D w'"
  using assms unfolding fd_contract_def by blast

lemma keepsD:
  "keeps D w w' \<Longrightarrow> valid D w \<Longrightarrow> valid D w' \<and> open_fds D w \<subseteq> open_fds D w' \<and> accepted D w \<le> accepted D w'"
  by (simp add: keeps_def)

lemma close_socket_keeps:
  assumes "fd_contract E D"
  shows "keeps (D\<lparr>open_fds := \<lambda>w. open_fds D w - {fd}\<rparr>) w (close_socket E fd w)"
proof -
  obtain x w1 where s: "sys_shutdown E fd SHUT_RDWR w = (x, w1)" by fastforce
  have "keeps D w (snd (sys_shutdown E fd SHUT_RDWR w))" using assms by (simp add: fd_contract_def)
  then have "keeps (D\<lparr>open_fds := \<lambda>w. open_fds D w - {fd}\<rparr>) w w1" using s by (auto simp: keeps_def)
  moreover have "keeps (D\<lparr>open_fds := \<lambda>w. open_fds D w - {fd}\<rparr>) w1 (snd (sys_close E fd w1))"
    using assms by (simp add: fd_contract_def)
  ultimately show ?thesis using s by (auto simp: close_socket_def intro: keeps_trans)
qed

lemma disconnect_keeps:
  assumes "fd_contract E D" and "disconnect E c w = (c', w')"
  shows "keeps (D\<lparr>open_fds := \<lambda>w. open_fds D w - {conn_socket c}\<rparr>) w w'"
  using assms close_socket_keeps [OF assms(1), of "conn_socket c" w]
  by (cases "conn_socket c = 0") (auto simp: conn_owner.release_open conn_owner.release_idle)

lemma accept_ec_cases:
  assumes "fd_contract E D" and "valid D w" and "accept_ec E a ec w = Inr (conn, ec', w')"
  obtains (failed) "conn = connection_new" "ec_bool ec'" "keeps D w w'"
  | (got) "ec' = ec" "conn_socket conn \<noteq> 0" "conn_socket conn \<notin> open_fds D w" "conn_socket conn \<in> open_fds D w'"
      "accepted D w < accepted D w'" "keeps D w w'"
proof (cases "is_open a")
  case False
  with assms(3) failed show ?thesis by (simp add: accept_ec_def ec_bool_def)
next
  case True
  obtain r ad n w1 where ac: "sys_accept E (acc_socket a) w = ((r, ad, n), w1)" by (metis prod.exhaust)
  note k1 = fd_contract_keeps(5) [OF assms(1) ac] and c = fd_contract_accept [OF assms(1,2) ac]
  show ?thesis
  proof (cases "r = -1")
    case minus: True
    with assms(3) ac True c k1 show ?thesis by (intro failed) (auto simp: accept_ec_def ec_bool_def)
  next
    case False
    then obtain re where fs: "from_native_socket E r re w1 = Inr (conn, w')" and ec: "ec' = ec"
      using assms(3) ac True by (auto simp: accept_ec_def bind_simps)
    obtain x w2 y where "sys_getsockname E r w1 = (x, w2)" "sys_getsockopt E r SOL_SOCKET SO_PROTOCOL 0 w2 = (y, w')"
      using fs by (auto simp: from_native_socket_def get_local_endpoint_def get_endpoint_def bind_simps
          split: prod.splits)
    then have k2: "keeps D w1 w'" using fd_contract_keeps(3,4) [OF assms(1)] by (blast intro: keeps_trans)
    have "valid D w1" using k1 assms(2) by (simp add: keeps_def)
    then show ?thesis
      using got c False ec k1 k2 from_native_socket_fd [OF fs] keepsD [OF k2] keeps_trans [OF k1 k2] by fastforce
  qed
qed

lemma sync_add:
  assumes "fd_contract E D" and "sync_inv D s w" and "all_open s" and "keeps D w w'"
    and "accepted D w < accepted D w'" and "conn_socket conn \<noteq> 0" and "conn_socket conn \<notin> open_fds D w"
    and "conn_socket conn \<in> open_fds D w'"
  shows "sync_inv D (add_client conn ec s) w' \<and> all_open (add_client conn ec s)"
proof -
  let ?cs = "infos (srv_clients s)" and ?id = "next_available_id s"
  have w: "valid D w'" "open_fds D w \<subseteq> open_fds D w'" using assms(2,4) by (auto simp: sync_simps keeps_def)
  have "Suc (accepted D w') < 2 ^ 64" using assms(1) w(1) unfolding fd_contract_def by blast
  moreover have "unat ?id \<le> Suc (accepted D w)" using assms(2) by (simp add: sync_simps)
  ultimately have small: "unat ?id + 1 < 2 ^ 64" using assms(5) by linarith
  then have inc: "unat (?id + 1) = unat ?id + 1" by (simp add: unat_word_ariths)
  then have ne: "?id + 1 \<noteq> 0" by (metis Suc_eq_plus1 nat.distinct(1) unat_0)
  have one: "1 \<le> ?id" using assms(2) by (simp add: sync_simps)
  then have one': "1 \<le> ?id + 1" using inc by (simp add: word_le_nat_alt)
  have open_c: "conn_socket (ci_conn c) = ci_fd c \<and> ci_fd c \<in> open_fds D w \<and> ci_fd c \<noteq> 0" if "c \<in> set ?cs" for c
    using assms(2,3) that by (auto simp: sync_simps all_open_def linked_def is_connected_def list_all_iff split: if_splits)
  have "id_inv (add_client conn ec s)"
    using id_inv_add [OF _ ne one, of "\<lparr>ci_id = ?id, ci_conn = conn, ci_fd = native_socket conn, ci_connected = True\<rparr>"
        "add_socket (srv_poll s) (native_socket conn)" ec] assms(2) by (simp add: sync_simps add_client_def)
  moreover have "list_all (linked (open_fds D w')) ?cs"
    using assms(2) w(2) by (auto simp: sync_simps list_all_iff intro: linked_keeps simp: marked_from_def)
  moreover have "native_socket conn \<notin> set (map ci_fd ?cs)"
    using open_c assms(7) by (auto simp: native_socket_def)
  moreover have "unat (?id + 1) \<le> Suc (accepted D w')"
    using inc assms(2,5) by (simp add: sync_simps)
  ultimately show ?thesis
    using assms(2,3,6,8) w(1) one'
    by (simp add: sync_simps all_open_def add_client_def native_socket_def linked_def is_connected_def
        handlers_keep_def pg.fds_add)
qed

lemma sync_ec: "sync_inv D s w \<Longrightarrow> keeps D w w' \<Longrightarrow> sync_inv D (s\<lparr>srv_ec := ec\<rparr>) w' \<and> (all_open s \<longrightarrow> all_open (s\<lparr>srv_ec := ec\<rparr>))"
  by (rule sync_frame) (auto simp: api_frame_def marked_from_def list.rel_refl dest: sync_no_null)

lemma accept_client_sync:
  assumes "fd_contract E D" and "sync_inv D s w" and "all_open s" and "accept_client E s w = Some (Inr (s', w'))"
  shows "sync_inv D s' w' \<and> all_open s'"
proof -
  obtain conn ec w1 where ac: "accept_ec E (srv_acceptor s) (srv_ec s) w = Inr (conn, ec, w1)"
    using assms(4) by (auto simp: accept_client_def bind_simps Let_def)
  have v: "valid D w" using assms(2) by (simp add: sync_simps)
  show ?thesis
  proof (cases "ec_bool ec")
    case True
    have s': "s' = s\<lparr>srv_ec := ec\<rparr>" "w' = connection_destroy E conn w1"
      using accept_client_fails [OF ac True] assms(4) by simp_all
    have "keeps D w w'"
      using assms(1) v ac
    proof (cases rule: accept_ec_cases)
      case failed
      then show ?thesis using s'(2) by (simp add: connection_destroy_def)
    next
      case got
      have "keeps (D\<lparr>open_fds := \<lambda>w. open_fds D w - {conn_socket conn}\<rparr>) w1 w'"
        using disconnect_keeps [OF assms(1), of conn w1] s'(2)
        by (cases "disconnect E conn w1") (simp add: connection_destroy_def)
      with got(3,6) show ?thesis by (auto simp: keeps_def)
    qed
    with sync_ec [OF assms(2)] assms(3) s'(1) show ?thesis by simp
  next
    case False
    have inv: "invoke E (map_option (\<lambda>h. h (next_available_id s)) (srv_on_connect s)) (add_client conn ec s) w1 = Some (Inr (s', w'))"
      using accept_client_succeeds [OF ac False] assms(4) by simp
    have add: "sync_inv D (add_client conn ec s) w1 \<and> all_open (add_client conn ec s)"
      using assms(1) v ac
    proof (cases rule: accept_ec_cases)
      case got
      then show ?thesis using sync_add [OF assms(1-3)] by blast
    qed (use False in simp)
    have "keeps D w1 (snd (f w1))" if "map_option (\<lambda>h. h (next_available_id s)) (srv_on_connect s) = Some f" for f
      using that assms(2) by (auto simp: sync_simps handlers_keep_def)
    with sync_invoke [OF assms(1) conjunct1 [OF add] inv] add show ?thesis by blast
  qed
qed

lemma has_pending_keeps:
  assumes "fd_contract E D" and "has_pending_connection E a w = (b, w')"
  shows "keeps D w w'"
proof -
  let ?ps = "[\<lparr>pfd_fd = acc_socket a, pfd_events = ucast (POLLIN OR POLLOUT), pfd_revents = 0\<rparr>]"
  have "w' = snd (has_pending_connection E a w)" using assms(2) by simp
  also have "\<dots> = snd (sys_poll E ?ps 0 w)"
    by (simp only: has_pending_connection_def poll_socket_def Let_def split_beta snd_conv)
  finally show ?thesis using fd_contract_keeps(1) [OF assms(1) prod.collapse [symmetric]] by simp
qed

lemma sync_world:
  assumes "sync_inv D s w" and "keeps D w w'"
  shows "sync_inv D s w'"
  using sync_frame [OF assms(1) api_frame_refl [OF sync_no_null [OF assms(1)]] assms(2)] by simp

lemma handle_incoming_connections_sync:
  assumes "fd_contract E D" and "sync_inv D s w" and "all_open s"
    and "handle_incoming_connections E s w = Some (Inr (s', w'))"
  shows "sync_inv D s' w' \<and> all_open s'"
proof -
  let ?P = "\<lambda>E' s w r. E' = E \<longrightarrow> sync_inv D s w \<longrightarrow> all_open s \<longrightarrow>
    (\<forall>s' w'. r = Inr (s', w') \<longrightarrow> sync_inv D s' w' \<and> all_open s')"
  have "?P E s w r" if "handle_incoming_connections E s w = Some r" for r
    using that
  proof (rule handle_incoming_connections.raw_induct [where P = ?P, rotated])
    fix rec E' s and w :: 'a and r
    assume IH: "\<And>E' s w r. rec E' s w = Some r \<Longrightarrow> ?P E' s w r"
      and eq: "(if srv_running s then case has_pending_connection E' (srv_acceptor s) w of
          (pending, w1) \<Rightarrow> if \<not> pending then Some (Inr (s, w1))
             else dbind (accept_client E' s w1) (\<lambda>r. rec E' (fst r) (snd r))
        else Some (Inr (s, w))) = Some r"
    show "?P E' s w r"
    proof (intro impI allI)
      fix s' w'
      assume E': "E' = E" and J: "sync_inv D s w" "all_open s" and r: "r = Inr (s', w')"
      obtain b w1 where p: "has_pending_connection E (srv_acceptor s) w = (b, w1)" by fastforce
      have J1: "sync_inv D s w1" using sync_world [OF J(1) has_pending_keeps [OF assms(1) p]] .
      show "sync_inv D s' w' \<and> all_open s'"
      proof (cases "srv_running s \<and> b")
        case False
        with eq r E' p J J1 show ?thesis by (auto split: if_splits)
      next
        case True
        with eq r E' p obtain s2 w2 where "accept_client E s w1 = Some (Inr (s2, w2))" "rec E s2 w2 = Some (Inr (s', w'))"
          by (auto simp: bind_simps)
        with IH accept_client_sync [OF assms(1) J1 J(2)] show ?thesis by blast
      qed
    qed
  qed
  with assms show ?thesis by blast
qed

section \<open>Closing a client's connection\<close>

abbreviation without :: "'w fd_view \<Rightarrow> socket_type \<Rightarrow> 'w fd_view" where
  "without D fd \<equiv> D\<lparr>open_fds := \<lambda>w. open_fds D w - {fd}\<rparr>"

text \<open>A client whose connection is released and who is marked leaves the rest of the table linked: no
  other client has its descriptor.\<close>

lemma core_close:
  assumes "sync_core D s w" and "i < length (srv_clients s)" and "srv_clients s ! i = Some c"
    and "keeps (without D (conn_socket (ci_conn c))) w w'" and "conn_socket conn = 0"
  shows "sync_core D (mark i (c\<lparr>ci_conn := conn\<rparr>) (s\<lparr>srv_ec := ec, srv_poll := g\<rparr>)) w'"
proof -
  let ?cs = "infos (srv_clients s)" and ?c = "c\<lparr>ci_conn := conn, ci_connected := False\<rparr>"
  have n: "None \<notin> set (srv_clients s)" and inv: "id_inv s" using assms(1) by (simp_all add: sync_core_def id_inv_def)
  have i: "i < length ?cs" "?cs ! i = c"
    using nth_infos [OF n assms(2)] assms(2,3) n by (simp_all add: length_infos)
  have upd: "infos ((srv_clients s)[i := Some ?c]) = ?cs[i := ?c]" by (rule infos_update [OF n assms(2)])
  have same: "map ci_fd (?cs[i := ?c]) = map ci_fd ?cs" "map ci_id (?cs[i := ?c]) = map ci_id ?cs"
    using i by (simp_all add: map_update list_update_same_conv)
  have w: "valid D w'" "accepted D w \<le> accepted D w'"
      "open_fds D w - {conn_socket (ci_conn c)} \<subseteq> open_fds D w'"
    using assms(1,4) by (auto simp: sync_core_def keeps_def)
  have "linked (open_fds D w') (?cs[i := ?c] ! j)" if j: "j < length ?cs" for j
  proof (cases "j = i")
    case True
    with i assms(5) show ?thesis by (simp add: linked_def)
  next
    case False
    have lj: "linked (open_fds D w) (?cs ! j)" and li: "linked (open_fds D w) c"
      using assms(1) i j by (auto simp: sync_core_def list_all_length)
    have "ci_fd (?cs ! j) \<noteq> ci_fd c"
      using assms(1) i j False by (auto simp: sync_core_def distinct_conv_nth)
    with lj li w(3) False show ?thesis by (auto simp: linked_def split: if_splits)
  qed
  then have "list_all (linked (open_fds D w')) (?cs[i := ?c])" by (simp add: list_all_length)
  moreover have "id_inv (mark i (c\<lparr>ci_conn := conn\<rparr>) (s\<lparr>srv_ec := ec, srv_poll := g\<rparr>))"
    using inv upd same(2) not_null_update [OF n] by (simp add: id_inv_def mark_def del: set_map)
  ultimately show ?thesis
    using assms(1) w upd same(1) by (simp add: sync_core_def mark_def handlers_keep_def)
qed

section \<open>Incoming messages\<close>

lemma receive_max_keeps:
  assumes "fd_contract E D" and "receive_max_ec E c ec fl w = (d, ec', conn, w')"
  shows "conn = c \<and> keeps D w w' \<or>
    buffer_size d = 0 \<and> conn_socket conn = 0 \<and> keeps (without D (conn_socket c)) w w'"
proof (cases "is_connected c")
  case False
  with assms(2) show ?thesis by (simp add: receive_max_ec_def receive_ec_def)
next
  case True
  let ?fl = "if bm_and E fl (rf_bits rf_peek) \<noteq> 0 then MSG_PEEK else 0"
  obtain r bs w1 where rv: "sys_recv E (conn_socket c) max_buffer_size ?fl w = ((r, bs), w1)"
    by (metis prod.exhaust)
  note k = fd_contract_keeps(2) [OF assms(1) rv]
  show ?thesis
  proof (cases "int_of_ssize r = 0")
    case zero: True
    obtain c' w2 where d: "disconnect E c w1 = (c', w2)" by fastforce
    have "keeps (without D (conn_socket c)) w w1" using k by (auto simp: keeps_def)
    then have "keeps (without D (conn_socket c)) w w2" using disconnect_keeps [OF assms(1) d] by (rule keeps_trans)
    moreover have "d = \<lparr>buf_data = []\<rparr> \<and> conn = c' \<and> w' = w2"
      using assms(2) rv zero d True by (simp add: receive_max_ec_def receive_ec_def Let_def max_buffer_size_def buffer_empty_def)
    ultimately show ?thesis using conn_owner.released [OF d] by (simp add: buffer_size_def)
  next
    case False
    have "conn = c \<and> w' = w1"
      using assms(2) rv False True
      by (simp add: receive_max_ec_def receive_ec_def Let_def max_buffer_size_def split: if_splits)
    with k show ?thesis by simp
  qed
qed

lemma remove_client_mark:
  assumes "id_inv s" and "i < length (srv_clients s)" and "srv_clients s ! i = Some c"
  shows "remove_client (ci_id c) s = Inr (mark i c s)"
  using by_id.unique [of s i c] assms by (simp add: remove_client_def mark_def id_inv_def)

lemma remove_client_frame: "None \<notin> set (srv_clients s) \<Longrightarrow> remove_client k s = Inr s' \<Longrightarrow> api_frame s s'"
  using frame_api.remove_client_inv [OF api_frame_refl] .

lemma handle_event_sync:
  assumes "fd_contract E D" and "sync_inv D s w" and "handle_event E ev s w = Some (Inr (s', w'))"
  shows "sync_inv D s' w'"
  using assms(3)
proof (cases rule: handle_event_cases)
  case ignored
  with assms(2) show ?thesis by simp
next
  case (hung_up c)
  have "api_frame s s'" using hung_up(1) by (rule remove_client_frame [OF sync_no_null [OF assms(2)]])
  with sync_frame [OF assms(2)] hung_up(2) show ?thesis by simp
next
  case (data i c d ec conn w1)
  have c: "i < length (srv_clients s)" "srv_clients s ! i = Some c" using by_fd.found [OF data(1)] by auto
  have conn: "conn = ci_conn c" "keeps D w w1" using receive_max_keeps [OF assms(1) data(2)] data(4) by auto
  then have same: "(srv_clients s)[i := Some (c\<lparr>ci_conn := conn\<rparr>)] = srv_clients s" using c by (metis client_info.surjective client_info.update_convs(2) list_update_id)
  have inv: "invoke E (map_option (\<lambda>h. h (ci_id c) d) (srv_on_data s)) (s\<lparr>srv_ec := ec\<rparr>) w1 = Some (Inr (s', w'))"
    using data(3) same by simp
  have s: "sync_inv D (s\<lparr>srv_ec := ec\<rparr>) w1" using sync_ec [OF assms(2) conn(2)] by simp
  have "keeps D w1 (snd (f w1))" if "map_option (\<lambda>h. h (ci_id c) d) (srv_on_data s) = Some f" for f
    using that assms(2) by (auto simp: sync_simps handlers_keep_def)
  with sync_invoke [OF assms(1) s inv] show ?thesis by blast
next
  case (failed i c d ec conn)
  have c: "i < length (srv_clients s)" "srv_clients s ! i = Some c" using by_fd.found [OF failed(1)] by auto
  let ?s = "s\<lparr>srv_ec := ec, srv_clients := (srv_clients s)[i := Some (c\<lparr>ci_conn := conn\<rparr>)]\<rparr>"
  have n: "None \<notin> set (srv_clients s)" using sync_no_null [OF assms(2)] .
  have "id_inv ?s"
    using assms(2) ids_update [OF n c] not_null_update [OF n] c
    by (auto simp: sync_simps id_inv_alt list_all_infosD intro!: list_all_infos_update simp del: set_map)
  from remove_client_mark [OF this, of i "c\<lparr>ci_conn := conn\<rparr>"] c failed(3)
  have s': "s' = mark i (c\<lparr>ci_conn := conn\<rparr>) (s\<lparr>srv_ec := ec\<rparr>)" by (simp add: mark_def)
  from receive_max_keeps [OF assms(1) failed(2)] show ?thesis
  proof (elim disjE conjE)
    assume "conn = ci_conn c" "keeps D w w'"
    moreover from this c have "api_frame s s'"
      unfolding s' by (intro api_frame_mark) (auto simp: api_frame_def n marked_from_def list.rel_refl)
    ultimately show ?thesis using sync_frame [OF assms(2)] by blast
  next
    assume "conn_socket conn = 0" "keeps (without D (conn_socket (ci_conn c))) w w'"
    then have "sync_core D (mark i (c\<lparr>ci_conn := conn\<rparr>) (s\<lparr>srv_ec := ec, srv_poll := srv_poll s\<rparr>)) w'"
      using assms(2) c by (intro core_close) (simp_all add: sync_inv_def)
    moreover have "map ci_fd (infos (srv_clients s')) = map ci_fd (infos (srv_clients s))"
      using c n nth_infos [OF n c(1)] unfolding s'
      by (simp add: mark_def infos_update map_update list_update_same_conv length_infos)
    ultimately show ?thesis using assms(2) by (simp add: sync_inv_def s' mark_def)
  qed
qed

lemma handle_events_sync:
  "fd_contract E D \<Longrightarrow> sync_inv D s w \<Longrightarrow> handle_events E evs s w = Some (Inr (s', w')) \<Longrightarrow> sync_inv D s' w'"
  by (induction evs arbitrary: s w) (auto simp: bind_simps dest: handle_event_sync split: if_splits)

lemma handle_incoming_messages_sync:
  assumes "fd_contract E D" and "sync_inv D s w" and "handle_incoming_messages E s w = Some (Inr (s', w'))"
  shows "sync_inv D s' w'"
proof -
  obtain evs g w1 where p: "pg_poll E (srv_poll s) 0 w = (evs, g, w1)" by (metis prod.exhaust)
  have "w1 = snd (sys_poll E (pg_pfds (srv_poll s)) 0 w)" using p by (simp add: pg_poll_def split_beta Let_def)
  then have "keeps D w w1" using fd_contract_keeps(1) [OF assms(1) prod.collapse [symmetric]] by simp
  then have "sync_inv D s w1" by (rule sync_world [OF assms(2)])
  then have "sync_inv D (s\<lparr>srv_poll := g\<rparr>) w1"
    using pg_poll_fds [OF p] by (simp add: sync_simps id_inv_def handlers_keep_def)
  with assms(3) p handle_events_sync [OF assms(1)] show ?thesis by (auto simp: handle_incoming_messages_def)
qed

section \<open>Disconnected clients\<close>

text \<open>The state of the loop that disconnects the clients from position \<open>r\<close> on, when it has reached
  position \<open>it\<close>: the clients in front of \<open>r\<close> are open, those between are released and no longer
  watched, those from \<open>r\<close> on are marked.\<close>

definition loop_inv :: "'w fd_view \<Rightarrow> nat \<Rightarrow> nat \<Rightarrow> 'w server \<Rightarrow> 'w \<Rightarrow> bool" where
  "loop_inv D r it s w \<longleftrightarrow> sync_core D s w \<and> r \<le> it
     \<and> pg_fds (srv_poll s) = take r (map ci_fd (infos (srv_clients s))) @ drop it (map ci_fd (infos (srv_clients s)))
     \<and> list_all is_connected (take r (map ci_conn (infos (srv_clients s))))
     \<and> list_all (\<lambda>cn. \<not> is_connected cn) (drop r (take it (map ci_conn (infos (srv_clients s)))))
     \<and> list_all (\<lambda>c. \<not> ci_connected c) (drop r (infos (srv_clients s)))"

lemma list_all_drop_nthD:
  assumes "list_all P (drop r xs)" and "r \<le> i" and "i < length xs"
  shows "P (xs ! i)"
proof -
  have "drop r xs ! (i - r) = xs ! i" "i - r < length (drop r xs)" using assms(2,3) by simp_all
  with assms(1) show ?thesis by (metis list_all_length)
qed

lemma filter_absent: "x \<notin> set xs \<Longrightarrow> filter (\<lambda>y. y \<noteq> x) xs = xs"
  by (induction xs) auto

lemma loop_inv_frame:
  assumes "loop_inv D r it s w" and "api_frame s s'" and "keeps D w w'"
  shows "loop_inv D r it s' w'"
proof -
  have "list_all2 (marked_from (srv_has_disconnected s')) (drop r (infos (srv_clients s))) (drop r (infos (srv_clients s')))"
    using assms(2) by (simp add: api_frame_def list_all2_dropI)
  then have "list_all (\<lambda>c. \<not> ci_connected c) (drop r (infos (srv_clients s')))"
    by (rule list_all2_list_all [where P = "\<lambda>c. \<not> ci_connected c"])
      (use assms(1) in \<open>auto simp: loop_inv_def dest: marked_from_fields\<close>)
  then show ?thesis
    using assms(1) core_frame [OF _ assms(2,3)] api_frame_map [OF assms(2)] assms(2)
    by (simp add: loop_inv_def api_frame_def)
qed

text \<open>The step of the loop before the handler is called.\<close>

lemma loop_inv_close:
  assumes "fd_contract E D" and "loop_inv D r it s w" and "it < length (srv_clients s)"
    and "srv_clients s ! it = Some c" and "disconnect E (ci_conn c) w = (conn, w1)"
  shows "loop_inv D r (Suc it) (s\<lparr>srv_poll := remove_socket (srv_poll s) (ci_fd c),
     srv_clients := (srv_clients s)[it := Some (c\<lparr>ci_conn := conn\<rparr>)]\<rparr>) w1"
proof -
  let ?cs = "infos (srv_clients s)" and ?c = "c\<lparr>ci_conn := conn\<rparr>"
  let ?s = "s\<lparr>srv_poll := remove_socket (srv_poll s) (ci_fd c), srv_clients := (srv_clients s)[it := Some ?c]\<rparr>"
  have core: "sync_core D s w" and r: "r \<le> it" using assms(2) by (simp_all add: loop_inv_def)
  have n: "None \<notin> set (srv_clients s)" using core by (simp add: sync_core_def id_inv_def)
  have it: "it < length ?cs" "?cs ! it = c"
    using nth_infos [OF n assms(3)] assms(3,4) n by (simp_all add: length_infos)
  have gone: "\<not> ci_connected c"
    using assms(2) it r list_all_drop_nthD [of "\<lambda>c. \<not> ci_connected c" r ?cs it] by (simp add: loop_inv_def)
  then have flag: "srv_has_disconnected s" using core it by (auto simp: sync_core_def id_inv_def)
  have off: "conn_socket conn = 0" using conn_owner.released [OF assms(5)] .
  have upd: "infos ((srv_clients s)[it := Some ?c]) = ?cs[it := ?c]" by (rule infos_update [OF n assms(3)])
  have fds: "map ci_fd (?cs[it := ?c]) = map ci_fd ?cs" using it by (simp add: map_update list_update_same_conv)
  have s: "?s = mark it ?c (s\<lparr>srv_ec := srv_ec s, srv_poll := remove_socket (srv_poll s) (ci_fd c)\<rparr>)"
    using gone flag by (cases s; cases c) (simp add: mark_def)
  have "sync_core D ?s w1"
    unfolding s using core assms(3,4) disconnect_keeps [OF assms(1,5)] off by (rule core_close)
  moreover have "pg_fds (srv_poll ?s) = take r (map ci_fd ?cs) @ drop (Suc it) (map ci_fd ?cs)"
  proof -
    have d: "drop it (map ci_fd ?cs) = ci_fd c # drop (Suc it) (map ci_fd ?cs)"
      using it by (simp add: Cons_nth_drop_Suc [symmetric] del: drop_map)
    have dist: "distinct (map ci_fd ?cs)" using core by (simp add: sync_core_def)
    have "ci_fd c \<notin> set (drop (Suc it) (map ci_fd ?cs))"
      using distinct_drop [OF dist, of it] d by simp
    moreover have "ci_fd c \<notin> set (take r (map ci_fd ?cs))"
      using set_take_disj_set_drop_if_distinct [OF dist r] d by auto
    ultimately show ?thesis
      using assms(2) d by (simp add: loop_inv_def pg.fds_remove filter_absent)
  qed
  moreover have "list_all is_connected (take r (map ci_conn (?cs[it := ?c])))"
    using assms(2) r by (simp add: loop_inv_def map_update)
  moreover have "list_all (\<lambda>cn. \<not> is_connected cn) (drop r (take (Suc it) (map ci_conn (?cs[it := ?c]))))"
  proof -
    have "take (Suc it) (map ci_conn (?cs[it := ?c])) = take it (map ci_conn ?cs) @ [conn]"
      using it(1) by (simp add: take_Suc_conv_app_nth map_update)
    then show ?thesis using assms(2) r off it by (simp add: loop_inv_def is_connected_def)
  qed
  moreover have "list_all (\<lambda>c. \<not> ci_connected c) (drop r (?cs[it := ?c]))"
  proof -
    have "drop r (?cs[it := ?c]) = (drop r ?cs)[it - r := ?c]" using r by (simp add: drop_update_swap)
    then show ?thesis
      using assms(2) gone set_update_subset_insert [of "drop r ?cs" "it - r" ?c] by (auto simp: loop_inv_def list_all_iff)
  qed
  ultimately show ?thesis using r fds upd by (simp add: loop_inv_def)
qed

lemma disconnect_loop_sync:
  assumes "fd_contract E D" and "loop_inv D r it s w" and "length (srv_clients s) = n"
    and "disconnect_loop E [it..<n] s w = Some (Inr (s', w'))" and "it \<le> n"
  shows "loop_inv D r n s' w' \<and> length (srv_clients s') = n"
  using assms(2-5)
proof (induction "n - it" arbitrary: it s w)
  case 0
  then show ?case by simp
next
  case (Suc k)
  then have lt: "it < n" by simp
  then have upt: "[it..<n] = it # [Suc it..<n]" by (rule upt_conv_Cons)
  obtain c where c: "srv_clients s ! it = Some c"
    using Suc.prems(2,3) upt lt by (auto split: option.splits)
  obtain conn w1 where d: "disconnect E (ci_conn c) w = (conn, w1)" by fastforce
  let ?s = "s\<lparr>srv_poll := remove_socket (srv_poll s) (ci_fd c),
             srv_clients := (srv_clients s)[it := Some (c\<lparr>ci_conn := conn\<rparr>)]\<rparr>"
  obtain s2 w2 where inv: "invoke E (map_option (\<lambda>h. h (ci_id c)) (srv_on_disconnect s)) ?s w1 = Some (Inr (s2, w2))"
    and rest: "disconnect_loop E [Suc it..<n] s2 w2 = Some (Inr (s', w'))"
    using Suc.prems(2,3) upt lt c d by (auto simp: bind_simps Let_def)
  have s: "loop_inv D r (Suc it) ?s w1"
    using loop_inv_close [OF assms(1) Suc.prems(1) _ c d] lt Suc.prems(2) by simp
  then have core: "sync_core D ?s w1" and nn: "None \<notin> set (srv_clients ?s)"
    by (simp_all add: loop_inv_def sync_core_def id_inv_def)
  have "keeps D w1 (snd (f w1))" if "map_option (\<lambda>h. h (ci_id c)) (srv_on_disconnect s) = Some f" for f
    using that core by (auto simp: sync_core_def handlers_keep_def)
  then have k: "keeps D w1 w2" using fds.invoke_K [OF inv, of D] assms(1) by blast
  have fr: "api_frame ?s s2" using nn inv by (rule invoke_frame)
  have "length (srv_clients s2) = n"
    using api_frame_map(1) [OF fr, THEN arg_cong [where f = length]] nn fr Suc.prems(2)
    by (simp add: api_frame_def length_infos)
  from Suc.hyps(1) [OF _ loop_inv_frame [OF s fr k] this rest] Suc.hyps(2) lt show ?case by simp
qed

lemma distinct_map_take: "distinct (map f xs) \<Longrightarrow> distinct (map f (take r xs))"
  by (simp add: take_map [symmetric])

lemma core_take:
  assumes "sync_core D s w"
  shows "sync_core D (s\<lparr>srv_clients := take r (srv_clients s)\<rparr>) w"
proof -
  have n: "None \<notin> set (srv_clients s)" using assms by (simp add: sync_core_def id_inv_def)
  then have t: "None \<notin> set (take r (srv_clients s))" by (auto dest: in_set_takeD)
  show ?thesis
    using assms n t by (auto simp: sync_core_def id_inv_alt infos_take list_all_iff distinct_map_take
        handlers_keep_def dest: in_set_takeD)
qed

lemma destroy_closed:
  "None \<notin> set ps \<Longrightarrow> list_all (\<lambda>c. \<not> is_connected (ci_conn c)) (infos ps) \<Longrightarrow> foldl (\<lambda>w p. destroy_client E p w) w ps = w"
proof (induction ps arbitrary: w)
  case (Cons p ps)
  then show ?case
    by (cases p) (auto simp: destroy_client_def connection_destroy_def is_connected_def conn_owner.release_idle)
qed simp

lemma linked_open: "linked os c \<Longrightarrow> ci_connected c \<Longrightarrow> is_connected (ci_conn c)"
  by (auto simp: linked_def is_connected_def split: if_splits)

lemma take_filter_drop:
  assumes "take r xs = filter P xs"
  shows "list_all P (take r xs)" and "list_all (\<lambda>x. \<not> P x) (drop r xs)"
proof -
  show "list_all P (take r xs)" using assms by (simp add: list_all_iff)
  then have "filter P (take r xs) = take r xs" by (simp add: list_all_iff filter_id_conv)
  moreover have "filter P xs = filter P (take r xs) @ filter P (drop r xs)"
    by (metis append_take_drop_id filter_append)
  ultimately have "filter P (drop r xs) = []" using assms by (metis append_self_conv)
  then show "list_all (\<lambda>x. \<not> P x) (drop r xs)" by (simp add: filter_empty_conv list_all_iff)
qed

lemma handle_disconnected_clients_sync:
  assumes "fd_contract E D" and "sync_inv D s w" and "handle_disconnected_clients E s w = Some (Inr (s', w'))"
  shows "sync_inv D s' w' \<and> all_open s'"
proof (cases "srv_has_disconnected s")
  case False
  then have "all_open s" "s' = s" "w' = w"
    using assms(2,3) by (auto simp: sync_simps id_inv_def all_open_def list_all_iff handle_disconnected_clients_def
        intro: linked_open)
  with assms(2) show ?thesis by simp
next
  case True
  let ?ps = "srv_clients s" and ?cs = "infos (srv_clients s)"
  have n: "None \<notin> set ?ps" by (rule sync_no_null [OF assms(2)])
  obtain qs r w1 s2 w2 where rm: "remove_if_disconnected E ?ps w = Inr (qs, r, w1)"
    and loop: "disconnect_loop E [r..<length qs] (s\<lparr>srv_clients := qs\<rparr>) w1 = Some (Inr (s2, w2))"
    and s': "s' = s2\<lparr>srv_clients := take r (srv_clients s2)\<rparr>"
      "w' = foldl (\<lambda>w p. destroy_client E p w) w2 (drop r (srv_clients s2))"
    using assms(3) True by (auto simp: handle_disconnected_clients_def bind_simps Let_def)
  have "\<not> (r \<le> j \<and> j < length qs \<and> qs ! j = None)" for j
    using loop disconnect_loop_null [of j "[r..<length qs]" "s\<lparr>srv_clients := qs\<rparr>" E w1 s2 w2] by auto
  then have same: "qs = ?ps" "w1 = w" using remove_if_unchanged_or_null [OF n rm] by blast+
  have r: "r \<le> length ?ps" "take r ?ps = keepers ?ps" using remove_if_filter [OF n, of E w] rm same by auto
  then have cs: "take r ?cs = filter ci_connected ?cs" by (metis infos_map_Some infos_take n)
  have "list_all is_connected (take r (map ci_conn ?cs))"
    using take_filter_drop(1) [OF cs] assms(2)
    by (auto simp: list_all_iff sync_simps take_map dest: in_set_takeD intro: linked_open)
  then have "loop_inv D r r s w"
    using assms(2) take_filter_drop(2) [OF cs] by (simp add: loop_inv_def sync_inv_def)
  moreover have "disconnect_loop E [r..<length ?ps] s w = Some (Inr (s2, w2))" using loop same by simp
  ultimately have fin: "loop_inv D r (length ?ps) s2 w2" and len: "length (srv_clients s2) = length ?ps"
    using disconnect_loop_sync [OF assms(1) _ refl _ r(1)] by blast+
  then have core: "sync_core D s2 w2" and n2: "None \<notin> set (srv_clients s2)"
    by (simp_all add: loop_inv_def sync_core_def id_inv_def)
  have "infos (drop r (srv_clients s2)) = drop r (infos (srv_clients s2))"
    using n2 by (metis drop_map infos_map_Some map_Some_infos)
  moreover have "None \<notin> set (drop r (srv_clients s2))" using n2 by (auto dest: in_set_dropD)
  ultimately have "w' = w2"
    unfolding s' using fin len n2 by (intro destroy_closed) (auto simp: loop_inv_def length_infos list_all_iff drop_map)
  then show ?thesis
    using core_take [OF core, of r] fin len n2
    by (simp add: sync_inv_def s' loop_inv_def all_open_map infos_take length_infos take_map)
qed

section \<open>The loop of the thread\<close>

lemma tick_sync:
  assumes "fd_contract E D" and "sync_inv D s w" and "all_open s" and "tick E s w = Some (Inr (s', w'))"
  shows "sync_inv D s' w' \<and> all_open s'"
proof -
  obtain s1 w1 s2 w2 where "handle_incoming_connections E s w = Some (Inr (s1, w1))"
    "handle_incoming_messages E s1 w1 = Some (Inr (s2, w2))"
    "handle_disconnected_clients E s2 w2 = Some (Inr (s', w'))"
    using assms(4) by (auto simp: tick_def bind_simps)
  then show ?thesis
    using assms(2,3) handle_incoming_connections_sync [OF assms(1)] handle_incoming_messages_sync [OF assms(1)]
      handle_disconnected_clients_sync [OF assms(1)] by blast
qed

lemma server_loop_sync:
  assumes "fd_contract E D" and "sync_inv D s w" and "all_open s" and "server_loop E s w = Some (Inr (s', w'))"
  shows "sync_inv D s' w' \<and> all_open s'"
proof -
  let ?P = "\<lambda>E' s w r. E' = E \<longrightarrow> sync_inv D s w \<longrightarrow> all_open s \<longrightarrow>
    (\<forall>s' w'. r = Inr (s', w') \<longrightarrow> sync_inv D s' w' \<and> all_open s')"
  have "?P E s w r" if "server_loop E s w = Some r" for r
    using that
    by (rule server_loop.raw_induct [where P = ?P, rotated])
      (fastforce simp: bind_simps split: if_splits prod.splits dest: tick_sync [OF assms(1)])
  with assms show ?thesis by blast
qed

lemma collect_events_fd: "ev \<in> set (collect_events E ps) \<Longrightarrow> si_fd ev \<in> set (map pfd_fd ps)"
  by (induction ps) (auto split: if_splits)

text \<open>The descriptors of the small kernel: a fresh one is above all that are open; at most 100 connections
  are waiting.\<close>

definition sim_view :: "kernel fd_view" where
  "sim_view = \<lparr>valid = (\<lambda>k. 0 < k_next k \<and> (\<forall>fd \<in> set (k_open k). fd < k_next k) \<and> k_backlog k \<le> 100),
     open_fds = (\<lambda>k. set (k_open k)), accepted = (\<lambda>k. 100 - k_backlog k)\<rparr>"

lemma sim_fd_contract: "fd_contract sim sim_view"
  by (auto simp: fd_contract_def keeps_def sim_view_def sim_calls Let_def split: list.splits)

section \<open>Properties\<close>



text \<open>C21: every event finds its client. In such a state, each event \<open>poll\<close> reports is for a descriptor
  in the table: the lookup by descriptor returns the one client that has it, and that client's
  connection is open on the same descriptor, so the event is handled on the socket it came from.\<close>

theorem events_find_clients:
  assumes "sync_inv D s w" and "all_open s" and "pg_poll E (srv_poll s) tm w = (evs, g, w')" and "ev \<in> set evs"
  shows "\<exists>i c. client_info_from_native_socket s (si_fd ev) = Inr (Some (i, c))
    \<and> is_connected (ci_conn c) \<and> conn_socket (ci_conn c) = si_fd ev \<and> si_fd ev \<in> open_fds D w
    \<and> (\<forall>j d. j < length (srv_clients s) \<longrightarrow> srv_clients s ! j = Some d \<longrightarrow> ci_fd d = si_fd ev \<longrightarrow> j = i)"
proof -
  have "evs = collect_events E (pg_pfds g)" using assms(3) by (auto simp: pg_poll_def Let_def split: prod.splits)
  then have "si_fd ev \<in> set (pg_fds g)" using collect_events_fd assms(4) by (simp add: pg_fds_def)
  then have "si_fd ev \<in> set (map ci_fd (infos (srv_clients s)))"
    using pg_poll_fds [OF assms(3)] assms(1) by (simp add: sync_inv_def)
  then obtain c where c: "Some c \<in> set (srv_clients s)" "ci_fd c = si_fd ev" by (auto simp: set_infos)
  then obtain i where i: "i < length (srv_clients s)" "srv_clients s ! i = Some c" by (auto simp: in_set_conv_nth)
  have d: "None \<notin> set (srv_clients s)" "distinct (map ci_fd (infos (srv_clients s)))"
    using assms(1) by (simp_all add: sync_simps id_inv_def)
  have "conn_socket (ci_conn c) \<noteq> 0" "linked (open_fds D w) c"
    using assms(1,2) c(1) by (auto simp: sync_simps all_open_def list_all_iff set_infos is_connected_def)
  moreover have "j = i" if "j < length (srv_clients s)" "srv_clients s ! j = Some d" "ci_fd d = si_fd ev" for j d
    using by_fd.unique [OF d i] by_fd.unique [OF d that(1,2)] that(3) c(2) by simp
  ultimately show ?thesis
    using by_fd.unique [OF d i] c(2) by (auto simp: linked_def is_connected_def)
qed

theorem events_find_clients_witness:
  "\<exists>i c. client_info_from_native_socket (ex_server sim [ex_client 1 7 True]) 7 = Inr (Some (i, c))
     \<and> conn_socket (ci_conn c) = 7"
proof -
  let ?s = "(ex_server sim [ex_client 1 7 True])\<lparr>next_available_id := 2, srv_has_disconnected := False\<rparr>"
  let ?k = "k0\<lparr>k_next := 9, k_open := [7, 3], k_listening := [3], k_inbox := [''x'']\<rparr>"
  have s: "sync_inv sim_view ?s ?k" "all_open ?s"
    by (simp_all add: sync_simps all_open_def handlers_keep_def id_inv_def sim_view_def ex_server_def ex_client_def
        linked_def is_connected_def k0_def poll_group_new_def pg_fds_def add_socket_def Let_def keeps_def)
  obtain st g where p: "pg_poll sim (srv_poll ?s) 0 ?k = ([\<lparr>si_fd = 7, si_status = st\<rparr>], g, ?k)"
    by (simp add: pg_poll_def sim_calls sim_revents_def k0_def ex_server_def ex_client_def write_revents_def
        poll_group_new_def add_socket_def Let_def enumerate_eq_zip)
  from events_find_clients [OF s p] show ?thesis
    by (auto simp: client_info_from_native_socket_def)
qed

end
