(* ===== verification/Addresses.thy ===== *)
theory Addresses
  imports Acceptors
begin

text \<open>
  Endpoints as a type. The members of \<open>endpoint\<close> read the family, the port and the address at fixed
  offsets of the bytes the endpoint owns, without looking at their number. An endpoint is well-typed
  (\<open>ep_wf\<close>) if it owns enough of them. Under what the manual pages say about the lengths of socket
  addresses (\<open>addr_contract\<close>), every endpoint the library makes is well-typed, and on well-typed
  endpoints no operation reads out of bounds.
\<close>

section \<open>Typing\<close>

text \<open>The length of a TCP socket address: at least a \<open>sockaddr_in\<close>, at most a \<open>sockaddr_storage\<close>, and
  no more than the block that holds it.\<close>

definition addr_len :: "bytes \<Rightarrow> nat \<Rightarrow> bool" where
  "addr_len ss n \<longleftrightarrow> 16 \<le> n \<and> n \<le> sizeof_sockaddr_storage \<and> n \<le> length ss"

definition addr_contract :: "'w env \<Rightarrow> bool" where
  "addr_contract E \<longleftrightarrow>
     (\<forall>fd w r ss n w'. sys_getsockname E fd w = ((r, ss, n), w') \<longrightarrow> addr_len ss n)
   \<and> (\<forall>fd w r ss n w'. sys_getpeername E fd w = ((r, ss, n), w') \<longrightarrow> addr_len ss n)
   \<and> (\<forall>fd w r ss n w'. sys_accept E fd w = ((r, ss, n), w') \<longrightarrow> addr_len ss n)
   \<and> (\<forall>h s hi w r ai w'. sys_getaddrinfo E h s hi w = ((r, ai), w') \<longrightarrow>
        list_all (\<lambda>nd. addr_len (ai_addr nd) (ai_addrlen nd)) (nodes ai))"

definition ep_wf :: "endpoint \<Rightarrow> bool" where
  "ep_wf e \<longleftrightarrow> 16 \<le> length (ep_data e) \<and> length (ep_data e) \<le> sizeof_sockaddr_storage"

definition conn_wf :: "connection \<Rightarrow> bool" where
  "conn_wf c \<longleftrightarrow> ep_wf (conn_local c) \<and> ep_wf (conn_remote c)"

definition acc_wf :: "acceptor \<Rightarrow> bool" where
  "acc_wf a \<longleftrightarrow> ep_wf (acc_local a)"

section \<open>Preservation\<close>

lemma addr_contractD:
  assumes "addr_contract E"
  shows "sys_getsockname E fd w = ((r, ss, n), w') \<Longrightarrow> addr_len ss n"
    and "sys_getpeername E fd w = ((r, ss, n), w') \<Longrightarrow> addr_len ss n"
    and "sys_accept E fd w = ((r, ss, n), w') \<Longrightarrow> addr_len ss n"
    and "sys_getaddrinfo E h s hi w = ((r, ai), w') \<Longrightarrow>
      list_all (\<lambda>nd. addr_len (ai_addr nd) (ai_addrlen nd)) (nodes ai)"
  using assms unfolding addr_contract_def by meson+

lemma ep_wf_new [simp]: "ep_wf endpoint_new"
  by (simp add: ep_wf_def endpoint_new_def ep_data_def buffer_sized_def)

lemma conn_wf_new [simp]: "conn_wf connection_new"
  by (simp add: conn_wf_def connection_new_def)

lemma acc_wf_new [simp]: "acc_wf acceptor_new"
  by (simp add: acc_wf_def acceptor_new_def)

lemma from_native_address_wf:
  assumes "addr_len ss n"
  obtains e where "from_native_address p ss n = Inr e" "ep_wf e"
  using assms that by (simp add: from_native_address_simps addr_len_def ep_wf_def)

lemma get_endpoint_wf:
  assumes "addr_contract E"
  obtains e w' where "get_endpoint E fd b w = Inr (e, w')" "ep_wf e"
proof -
  obtain r ss n w1 where nm: "(if b then sys_getsockname E fd w else sys_getpeername E fd w) = ((r, ss, n), w1)"
    by (metis prod.exhaust)
  obtain r2 p w2 where op: "sys_getsockopt E fd SOL_SOCKET SO_PROTOCOL 0 w1 = ((r2, p), w2)" by (metis prod.exhaust)
  have "addr_len ss n" using addr_contractD(1,2) [OF assms] nm by (cases b) auto
  then obtain e where "from_native_address p ss n = Inr e" "ep_wf e" by (rule from_native_address_wf)
  with nm op that show ?thesis by (simp add: get_endpoint_def)
qed

lemma pack_wf_typed:
  "list_all (\<lambda>nd. addr_len (ai_addr nd) (ai_addrlen nd)) (nodes ai) \<Longrightarrow> \<exists>es. pack ai = Inr es \<and> list_all ep_wf es"
  by (induction ai rule: pack.induct) (auto simp: addr_len_def from_native_address_simps ep_wf_def)

lemma resolve_wf:
  assumes "addr_contract E"
  obtains es ec' w' where "resolve_ec E h s ec w = Inr (es, ec', w')" "list_all ep_wf es"
proof -
  obtain ai w1 where g: "getaddrinfo E h s w = (ai, w1)" by fastforce
  show ?thesis
  proof (cases ai)
    case None
    with g that show ?thesis by (simp add: resolve_ec_def)
  next
    case (Some a)
    have "list_all (\<lambda>nd. addr_len (ai_addr nd) (ai_addrlen nd)) (nodes ai)"
      using g Some addr_contractD(4) [OF assms] by (auto simp: getaddrinfo_def Let_def simp del: nodes.simps split: prod.splits if_splits)
    then obtain es where "pack ai = Inr es" "list_all ep_wf es" using pack_wf_typed by blast
    with g Some that show ?thesis by (simp add: resolve_ec_def)
  qed
qed

lemma family_wf: "ep_wf e \<Longrightarrow> \<exists>f. family e = Inr f"
  by (auto simp: family_def sa_family_def byte_at_def ep_wf_def)

lemma create_connected_socket_wf: "list_all ep_wf es \<Longrightarrow> \<exists>r. create_connected_socket E es w = Inr r"
proof (induction es arbitrary: w)
  case (Cons e es)
  then obtain f where "family e = Inr f" using family_wf by auto
  with Cons show ?case by (auto simp: try_connect_def split: prod.splits)
qed simp

lemma create_listening_socket_wf: "list_all ep_wf es \<Longrightarrow> \<exists>r. create_listening_socket E es n b w = Inr r"
proof (induction es arbitrary: w)
  case (Cons e es)
  then obtain f where f: "family e = Inr f" using family_wf by auto
  have "\<exists>r. try_listen E n b e w = Inr r" by (auto simp: try_listen_def f split: prod.splits)
  with Cons show ?case by (auto split: option.splits)
qed simp

lemma connect_wf:
  assumes "addr_contract E" and "conn_wf c" and "list_all ep_wf es"
  obtains ec' c' w' where "connect_ec E c es ec w = Inr ((), ec', c', w')" "conn_wf c'"
proof (cases "es = []")
  case True
  with that assms(2) show ?thesis by (simp add: connect_ec_def)
next
  case False
  obtain fd w1 where s: "create_connected_socket E es w = Inr (fd, w1)"
    using create_connected_socket_wf [OF assms(3), of E w] by auto
  obtain le w2 where l: "get_endpoint E fd True w1 = Inr (le, w2)" "ep_wf le" by (rule get_endpoint_wf [OF assms(1)])
  obtain re w3 where r: "get_endpoint E fd False w2 = Inr (re, w3)" "ep_wf re" by (rule get_endpoint_wf [OF assms(1)])
  show ?thesis
    using that assms(2) False s l r
    by (cases "fd = 0") (auto simp: connect_ec_def get_local_endpoint_def get_remote_endpoint_def conn_wf_def)
qed

lemma open_wf:
  assumes "addr_contract E" and "acc_wf a" and "list_all ep_wf es"
  obtains ec' a' w' where "open_ec E a es ec cfg w = Inr ((), ec', a', w')" "acc_wf a'"
proof (cases "es = []")
  case True
  with that assms(2) show ?thesis by (simp add: open_ec_def)
next
  case False
  let ?b = "bm_and E cfg (ac_bits ac_reuse_address) \<noteq> 0"
  obtain fd w1 where s: "create_listening_socket E es backlog_size ?b w = Inr (fd, w1)"
    using create_listening_socket_wf [OF assms(3), of E backlog_size ?b w] by auto
  obtain le w2 where l: "get_endpoint E fd True w1 = Inr (le, w2)" "ep_wf le" by (rule get_endpoint_wf [OF assms(1)])
  show ?thesis
    using that assms(2) False s l by (cases "fd = 0") (auto simp: open_ec_def get_local_endpoint_def acc_wf_def Let_def)
qed

lemma accept_wf:
  assumes "addr_contract E"
  obtains c ec' w' where "accept_ec E a ec w = Inr (c, ec', w')" "conn_wf c"
proof (cases "is_open a")
  case False
  with that show ?thesis by (simp add: accept_ec_def)
next
  case True
  obtain r ss n w1 where ac: "sys_accept E (acc_socket a) w = ((r, ss, n), w1)" by (metis prod.exhaust)
  then have "addr_len ss n" by (rule addr_contractD(3) [OF assms])
  then obtain e where e: "from_native_address (protocol (acc_local a)) ss n = Inr e" "ep_wf e" by (rule from_native_address_wf)
  obtain le w2 where l: "get_endpoint E r True w1 = Inr (le, w2)" "ep_wf le" by (rule get_endpoint_wf [OF assms])
  show ?thesis
    using that [OF _ conn_wf_new] that True ac e l
    by (cases "r = -1") (auto simp: accept_ec_def from_native_socket_def get_local_endpoint_def conn_wf_def Let_def)
qed

section \<open>Progress\<close>

text \<open>The operations of a well-typed endpoint return.\<close>

lemma addr_total: "ep_wf e \<Longrightarrow> \<exists>a. addr E e = Inr a"
  by (auto simp: addr_def get_in_addr_def sa_family_def byte_at_def ep_wf_def Let_def)

lemma port_total: "ep_wf e \<Longrightarrow> \<exists>p. port e = Inr p"
  by (auto simp: port_def get_port_def sa_family_def byte_at_def ep_wf_def)

lemma ep_str_total:
  assumes "ep_wf e"
  shows "\<exists>s. ep_str E e = Inr s"
proof -
  obtain a p where "addr E e = Inr a" "port e = Inr p" using addr_total [OF assms] port_total [OF assms] by blast
  moreover obtain f where "sa_family (ep_data e) = Inr f" using family_wf [OF assms] by (auto simp: family_def)
  ultimately show ?thesis by (simp add: ep_str_def)
qed

lemma conn_str_total: "conn_wf c \<Longrightarrow> \<exists>l r. ep_str E (local_endpoint c) = Inr l \<and> ep_str E (remote_endpoint c) = Inr r"
  using ep_str_total by (auto simp: conn_wf_def local_endpoint_def remote_endpoint_def)

lemma sim_addr_contract: "addr_contract sim"
  by (auto simp: addr_contract_def addr_len_def sim_calls sim_addr_def split: if_splits)

section \<open>Property\<close>

text \<open>C12: well-typed endpoints do not go wrong. Resolving any name returns, with well-typed endpoints only.
  Connecting a connection to them returns and leaves its two endpoints well-typed; opening an acceptor
  on them and then accepting return too, with well-typed endpoints. In each case printing the endpoints
  returns: no operation on the way reads outside the bytes of an address.\<close>

theorem endpoints_well_typed:
  assumes "addr_contract E" and "conn_wf c" and "acc_wf a"
  shows "\<exists>es ec1 w1. resolve_ec E h s ec w = Inr (es, ec1, w1) \<and> list_all ep_wf es
    \<and> (\<exists>ec2 c2 w2. connect_ec E c es ec1 w1 = Inr ((), ec2, c2, w2) \<and> conn_wf c2
         \<and> (\<exists>l r. ep_str E (local_endpoint c2) = Inr l \<and> ep_str E (remote_endpoint c2) = Inr r))
    \<and> (\<exists>ec2 a2 w2. open_ec E a es ec1 cfg w1 = Inr ((), ec2, a2, w2) \<and> acc_wf a2
         \<and> (\<exists>ec3 c3 w3. accept_ec E a2 ec2 w2 = Inr (c3, ec3, w3) \<and> conn_wf c3
              \<and> (\<exists>l r. ep_str E (local_endpoint c3) = Inr l \<and> ep_str E (remote_endpoint c3) = Inr r)))"
proof -
  obtain es ec1 w1 where r: "resolve_ec E h s ec w = Inr (es, ec1, w1)" "list_all ep_wf es"
    by (rule resolve_wf [OF assms(1)])
  obtain ec2 c2 w2 where c: "connect_ec E c es ec1 w1 = Inr ((), ec2, c2, w2)" "conn_wf c2"
    by (rule connect_wf [OF assms(1,2) r(2)])
  obtain ec3 a2 w3 where o: "open_ec E a es ec1 cfg w1 = Inr ((), ec3, a2, w3)" "acc_wf a2"
    by (rule open_wf [OF assms(1,3) r(2)])
  obtain ec4 c3 w4 where a: "accept_ec E a2 ec3 w3 = Inr (c3, ec4, w4)" "conn_wf c3"
    by (rule accept_wf [OF assms(1)])
  show ?thesis
    using r c o a conn_str_total [OF c(2), of E] conn_str_total [OF a(2), of E] by blast
qed

theorem endpoints_well_typed_witness:
  "\<exists>es ec w ec2 c2 w2. resolve_ec sim ''host'' ''80'' 0 k0 = Inr (es, ec, w) \<and> list_all ep_wf es
     \<and> connect_ec sim connection_new es ec w = Inr ((), ec2, c2, w2) \<and> conn_wf c2"
  using endpoints_well_typed [OF sim_addr_contract conn_wf_new acc_wf_new, of "''host''" "''80''" 0 k0] by blast

end
