(* ===== verification/Fault_Freedom.thy ===== *)
theory Fault_Freedom
  imports Server_System Addresses
begin

text \<open>
  Which faults a server can end in. Once all three handlers are installed, the network thread reads out of
  no bounds, calls no empty function and terminates no thread: it exits when it cannot open its port, and
  otherwise the only fault left is the null pointer that \<open>handle_disconnected_clients_\<close> reads when a
  client that stays comes after one that leaves.
\<close>

section \<open>Faults of the calls of a handler\<close>

lemma find_ptr_fault: "find_ptr P ps = Inl f \<Longrightarrow> f = Null_deref"
  by (induction P ps rule: find_ptr.induct) (auto simp: bind_simps split: if_splits option.splits)

lemma remove_client_fault: "remove_client k s = Inl f \<Longrightarrow> f = Null_deref"
  by (auto simp: remove_client_def client_info_from_id_def bind_simps dest: find_ptr_fault split: option.splits)

lemma message_client_fault: "message_client E msg k s w = Some (Inl f) \<Longrightarrow> f = Null_deref"
  by (auto simp: message_client_def client_info_from_id_def bind_simps Let_def send_ec_no_fault
      dest: find_ptr_fault remove_client_fault split: option.splits if_splits)

lemma message_each_fault: "message_each E msg x ps s w = Some (Inl f) \<Longrightarrow> f = Null_deref"
  by (induction E msg x ps s w rule: message_each.induct)
    (auto simp: bind_simps dest: message_client_fault split: if_splits)

lemma run_call_fault: "run_call E a s w = Some (Inl f) \<Longrightarrow> f = Null_deref"
  by (cases a) (auto simp: message_all_clients_def bind_simps
      dest: message_client_fault message_each_fault remove_client_fault)

lemma run_calls_fault: "run_calls E as s w = Some (Inl f) \<Longrightarrow> f = Null_deref"
  by (induction as arbitrary: s w) (auto simp: bind_simps dest: run_call_fault)

lemma invoke_fault: "invoke E h s w = Some (Inl f) \<Longrightarrow> h \<noteq> None \<Longrightarrow> f = Null_deref"
  by (auto simp: invoke_def dest: run_calls_fault split: prod.splits)

lemma run_calls_no_fault: "None \<notin> set (srv_clients s) \<Longrightarrow> run_calls E as s w \<noteq> Some (Inl f)"
proof (induction as arbitrary: s w)
  case (Cons a as)
  have "None \<notin> set (srv_clients s1)" if "run_call E a s w = Some (Inr (s1, w1))" for s1 w1
    using frame_net.run_call_inv [OF _ _ that, of "srv_acceptor s" "srv_thread s"] Cons.prems by simp
  with Cons show ?case by (auto simp: bind_simps run_call_no_fault)
qed simp

lemma invoke_no_fault: "None \<notin> set (srv_clients s) \<Longrightarrow> h \<noteq> None \<Longrightarrow> invoke E h s w \<noteq> Some (Inl f)"
  by (auto simp: invoke_def run_calls_no_fault split: prod.splits)

section \<open>Faults of the network thread\<close>

definition equipped :: "'w server \<Rightarrow> bool" where
  "equipped s \<longleftrightarrow> None \<notin> set (srv_clients s) \<and> srv_on_data s \<noteq> None \<and> srv_on_connect s \<noteq> None
     \<and> srv_on_disconnect s \<noteq> None"

interpretation equipped_net: net_invariant equipped "\<lambda>_. True"
  by unfold_locales (auto simp: equipped_def mark_def stop_def add_client_def not_null_update list_all_iff dest: in_set_takeD)

lemma accept_client_no_fault:
  assumes "addr_contract E" and "equipped s"
  shows "accept_client E s w \<noteq> Some (Inl f)"
proof -
  obtain conn ec w1 where ac: "accept_ec E (srv_acceptor s) (srv_ec s) w = Inr (conn, ec, w1)"
    using accept_wf [OF assms(1)] by metis
  show ?thesis
  proof (cases "ec_bool ec")
    case True
    with accept_client_fails [OF ac] show ?thesis by simp
  next
    case False
    have "None \<notin> set (srv_clients (add_client conn ec s))" "srv_on_connect s \<noteq> None"
      using assms(2) by (auto simp: equipped_def add_client_def)
    with accept_client_succeeds [OF ac False] show ?thesis by (simp add: invoke_no_fault)
  qed
qed

lemma handle_incoming_connections_no_fault:
  assumes "addr_contract E" and "equipped s"
  shows "handle_incoming_connections E s w \<noteq> Some (Inl f)"
proof -
  let ?P = "\<lambda>E' s w r. E' = E \<longrightarrow> equipped s \<longrightarrow> (\<forall>f. r \<noteq> Inl f)"
  have "?P E s w r" if "handle_incoming_connections E s w = Some r" for r
    using that
    by (rule handle_incoming_connections.raw_induct [where P = ?P, rotated])
      (fastforce simp: bind_simps accept_client_no_fault [OF assms(1)] split: if_splits prod.splits
        dest: equipped_net.accept_client_inv)
  with assms(2) show ?thesis by blast
qed

lemma handle_event_no_fault:
  assumes "equipped s"
  shows "handle_event E ev s w \<noteq> Some (Inl f)"
proof -
  have n: "None \<notin> set (srv_clients s)" and h: "srv_on_data s \<noteq> None" using assms by (simp_all add: equipped_def)
  obtain r where r: "client_info_from_native_socket s (si_fd ev) = Inr r" using by_fd.total [OF n] by blast
  have "None \<notin> set ((srv_clients s)[i := Some c])" for i c using n by (rule not_null_update)
  then show ?thesis
    using r n h by (auto simp: handle_event_def bind_simps Let_def remove_client_no_fault invoke_no_fault
        split: option.splits if_splits prod.splits)
qed

lemma handle_events_no_fault: "equipped s \<Longrightarrow> handle_events E evs s w \<noteq> Some (Inl f)"
  by (induction evs arbitrary: s w) (auto simp: bind_simps handle_event_no_fault dest: equipped_net.handle_event_inv)

lemma handle_incoming_messages_no_fault: "equipped s \<Longrightarrow> handle_incoming_messages E s w \<noteq> Some (Inl f)"
  by (auto simp: handle_incoming_messages_def handle_events_no_fault equipped_def split: prod.splits)

interpretation size_api: api_invariant "\<lambda>s. length (srv_clients s) = n \<and> srv_on_disconnect s \<noteq> None" "\<lambda>_. True" for n
  by unfold_locales (auto simp: mark_def stop_def)

lemma disconnect_loop_fault:
  assumes "disconnect_loop E its s w = Some (Inl f)" and "\<forall>it \<in> set its. it < length (srv_clients s)"
    and "srv_on_disconnect s \<noteq> None"
  shows "f = Null_deref \<and> \<not> equipped s"
  using assms
proof (induction its arbitrary: s w)
  case (Cons it its)
  then have it: "it < length (srv_clients s)" by simp
  show ?case
  proof (cases "srv_clients s ! it")
    case None
    with Cons.prems it show ?thesis using nth_mem [OF it] by (auto simp: equipped_def)
  next
    case (Some c)
    obtain conn w1 where d: "disconnect E (ci_conn c) w = (conn, w1)" by fastforce
    let ?s = "s\<lparr>srv_poll := remove_socket (srv_poll s) (ci_fd c),
               srv_clients := (srv_clients s)[it := Some (c\<lparr>ci_conn := conn\<rparr>)]\<rparr>"
    have eq: "equipped s \<Longrightarrow> equipped ?s" by (auto simp: equipped_def not_null_update)
    let ?run = "invoke E (map_option (\<lambda>h. h (ci_id c)) (srv_on_disconnect s)) ?s w1"
    from Cons.prems(1) it Some d consider "?run = Some (Inl f)"
      | s2 w2 where "?run = Some (Inr (s2, w2))" "disconnect_loop E its s2 w2 = Some (Inl f)"
      by (auto simp: bind_simps Let_def)
    then show ?thesis
    proof cases
      case 1
      have h: "map_option (\<lambda>h. h (ci_id c)) (srv_on_disconnect s) \<noteq> None" using Cons.prems(3) by simp
      have "None \<in> set (srv_clients ?s)" using invoke_no_fault [OF _ h] 1 by blast
      then have "\<not> equipped ?s" unfolding equipped_def by blast
      then have "\<not> equipped s" using eq by blast
      with invoke_fault [OF 1 h] show ?thesis by blast
    next
      case 2
      have "length (srv_clients s2) = length (srv_clients s) \<and> srv_on_disconnect s2 \<noteq> None"
        using Cons.prems(3) by (intro size_api.invoke_inv [OF _ _ 2(1)]) (simp_all add: list_all_iff)
      moreover have "equipped s \<Longrightarrow> equipped s2"
        using eq by (intro equipped_net.invoke_inv [OF _ _ 2(1)]) (simp_all add: list_all_iff)
      ultimately show ?thesis using Cons.IH [OF 2(2)] Cons.prems(2) by auto
    qed
  qed
qed simp

text \<open>A marked client in front of a connected one.\<close>

definition out_of_order :: "client_info option list \<Rightarrow> bool" where
  "out_of_order ps \<longleftrightarrow> (\<exists>i j c d. i < j \<and> j < length ps \<and> ps ! i = Some c \<and> \<not> ci_connected c
     \<and> ps ! j = Some d \<and> ci_connected d)"

lemma remove_if_in_order:
  assumes "None \<notin> set ps" and "\<not> out_of_order ps"
  shows "\<exists>r. remove_if_disconnected E ps w = Inr (ps, r, w)"
proof -
  obtain x where x: "find_ptr (\<lambda>c. \<not> ci_connected c) ps = Inr x" using find_ptr_total [OF assms(1)] by blast
  show ?thesis
  proof (cases x)
    case None
    with x show ?thesis by (simp add: remove_if_disconnected_def)
  next
    case (Some p)
    obtain i c where p: "p = (i, c)" by (cases p)
    with x Some have i: "i < length ps" "ps ! i = Some c" "\<not> ci_connected c" by (auto dest: find_ptr_SomeD)
    have "\<exists>d. ps ! j = Some d \<and> \<not> ci_connected d" if j: "Suc i \<le> j" "j < length ps" for j
    proof -
      obtain d where "ps ! j = Some d" using assms(1) nth_mem [OF j(2)] by (cases "ps ! j") auto
      with assms(2) i j show ?thesis unfolding out_of_order_def by (metis Suc_le_lessD)
    qed
    then have "remove_if_loop E ps i (Suc i) w = Inr (ps, i, w)" by (intro remove_if_loop_none_connected) blast
    with x Some p show ?thesis by (simp add: remove_if_disconnected_def)
  qed
qed

lemma handle_disconnected_clients_fault:
  assumes "equipped s" and "handle_disconnected_clients E s w = Some (Inl f)"
  shows "f = Null_deref \<and> out_of_order (srv_clients s)"
proof -
  let ?ps = "srv_clients s"
  have n: "None \<notin> set ?ps" using assms(1) by (simp add: equipped_def)
  obtain qs r w1 where rm: "remove_if_disconnected E ?ps w = Inr (qs, r, w1)"
    using remove_if_filter [OF n, of E w] by blast
  then have loop: "disconnect_loop E [r..<length qs] (s\<lparr>srv_clients := qs\<rparr>) w1 = Some (Inl f)"
    using assms(2) by (auto simp: handle_disconnected_clients_def bind_simps Let_def split: if_splits)
  from disconnect_loop_fault [OF this] assms(1) have "f = Null_deref" "\<not> equipped (s\<lparr>srv_clients := qs\<rparr>)"
    by (auto simp: equipped_def)
  moreover from this(2) have "qs \<noteq> ?ps" using assms(1) by (auto simp: equipped_def)
  ultimately show ?thesis using remove_if_in_order [OF n, of E w] rm by auto
qed

lemma tick_fault:
  assumes "addr_contract E" and "equipped s" and "tick E s w = Some (Inl f)"
  shows "f = Null_deref"
proof -
  obtain s1 w1 where c: "handle_incoming_connections E s w = Some (Inr (s1, w1))"
    and r: "dbind (handle_incoming_messages E s1 w1) (\<lambda>(s2, w2). handle_disconnected_clients E s2 w2) = Some (Inl f)"
    using assms(3) handle_incoming_connections_no_fault [OF assms(1,2), of w] by (auto simp: tick_def bind_simps)
  have s1: "equipped s1" by (rule equipped_net.handle_incoming_connections_inv [OF assms(2) c])
  obtain s2 w2 where m: "handle_incoming_messages E s1 w1 = Some (Inr (s2, w2))"
    and d: "handle_disconnected_clients E s2 w2 = Some (Inl f)"
    using r handle_incoming_messages_no_fault [OF s1, of E w1] by (auto simp: bind_simps)
  from handle_disconnected_clients_fault [OF equipped_net.handle_incoming_messages_inv [OF s1 m] d] show ?thesis by blast
qed

lemma server_loop_fault:
  assumes "addr_contract E" and "equipped s" and "server_loop E s w = Some (Inl f)"
  shows "f = Null_deref"
proof -
  let ?P = "\<lambda>E' s w r. E' = E \<longrightarrow> equipped s \<longrightarrow> (\<forall>f. r = Inl f \<longrightarrow> f = Null_deref)"
  have "?P E s w r" if "server_loop E s w = Some r" for r
    using that
    by (rule server_loop.raw_induct [where P = ?P, rotated])
      (fastforce simp: bind_simps split: if_splits dest: tick_fault [OF assms(1)] equipped_net.tick_inv)
  with assms(2,3) show ?thesis by blast
qed

lemma network_thread_start_fault:
  assumes "addr_contract E" and "acc_wf (srv_acceptor s)" and "network_thread_start E s w = Inl f"
  shows "f = Exit_failure"
proof -
  obtain es ec w1 where r: "resolve_ec E any_address (to_string (unat (srv_port s))) (srv_ec s) w = Inr (es, ec, w1)"
      "list_all ep_wf es" by (rule resolve_wf [OF assms(1)])
  obtain ec2 a w2 where o: "open_ec E (srv_acceptor s) es ec (ac_bits ac_reuse_address) w1 = Inr ((), ec2, a, w2)"
    by (rule open_wf [OF assms(1,2) r(2)])
  show ?thesis using assms(3) r(1) o by (auto simp: network_thread_start_def Let_def split: if_splits)
qed

section \<open>Property\<close>



end
