(* ===== verification/Clients.thy ===== *)
theory Clients
  imports Connections
begin

text \<open>
  \<open>src/client.cpp\<close> and \<open>include/yonaa/client.hpp\<close>: the client and its network thread.

  Handlers are unknown functions of the world, as for the server: a handler answers with a new
  world and the calls it makes on the client. A call of \<open>send_message\<close> that fails calls the
  disconnect handler, which may send again, so running a list of calls may not end
  (\<open>partial_function\<close>, with \<open>None\<close> for not returning).

  The constructor is defaulted and leaves \<open>running_\<close> uninitialised; the value found in memory is
  an argument of \<open>client_new\<close>.
\<close>

unbundle bit_operations_syntax

section \<open>State\<close>

datatype client_call = CC_send_message buffer | CC_disconnect | CC_connect string string

record 'w client =
  cl_running :: bool
  cl_ec :: error_code
  cl_on_data :: "(buffer \<Rightarrow> 'w \<Rightarrow> client_call list \<times> 'w) option"
  cl_on_connect :: "('w \<Rightarrow> client_call list \<times> 'w) option"
  cl_on_disconnect :: "('w \<Rightarrow> client_call list \<times> 'w) option"
  cl_thread :: thread_state
  cl_conn :: connection
  cl_hostname :: string
  cl_service :: string

definition client_new :: "bool \<Rightarrow> 'w client" where
  "client_new indeterminate =
     \<lparr>cl_running = indeterminate, cl_ec = no_error, cl_on_data = None, cl_on_connect = None,
      cl_on_disconnect = None, cl_thread = No_thread, cl_conn = connection_new,
      cl_hostname = [], cl_service = []\<rparr>"

section \<open>Operations of the user's thread\<close>

definition set_connect_handler :: "('w \<Rightarrow> client_call list \<times> 'w) \<Rightarrow> 'w client \<Rightarrow> 'w client" where
  "set_connect_handler h c = c\<lparr>cl_on_connect := Some h\<rparr>"

definition set_disconnect_handler :: "('w \<Rightarrow> client_call list \<times> 'w) \<Rightarrow> 'w client \<Rightarrow> 'w client" where
  "set_disconnect_handler h c = c\<lparr>cl_on_disconnect := Some h\<rparr>"

definition client_set_data_receive_handler ::
  "(buffer \<Rightarrow> 'w \<Rightarrow> client_call list \<times> 'w) \<Rightarrow> 'w client \<Rightarrow> 'w client" where
  "client_set_data_receive_handler h c = c\<lparr>cl_on_data := Some h\<rparr>"

definition client_connect :: "string \<Rightarrow> string \<Rightarrow> 'w client \<Rightarrow> 'w client result" where
  "client_connect hostname service c =
     (let c1 = c\<lparr>cl_hostname := hostname, cl_service := service\<rparr>
      in if joinable (cl_thread c1) then Inl Terminate else Inr (c1\<lparr>cl_thread := Thread_running\<rparr>))"

definition client_disconnect :: "'w client \<Rightarrow> 'w client" where
  "client_disconnect c = c\<lparr>cl_running := False\<rparr>"

definition client_is_running :: "'w client \<Rightarrow> bool" where
  "client_is_running c = cl_running c"

definition client_is_connected :: "'w client \<Rightarrow> bool" where
  "client_is_connected c = is_connected (cl_conn c)"

section \<open>Callbacks\<close>

partial_function (option) client_run_calls ::
  "'w env \<Rightarrow> client_call list \<Rightarrow> 'w client \<Rightarrow> 'w \<Rightarrow> ('w client \<times> 'w) run" where
  "client_run_calls E calls c w =
     (case calls of
        [] \<Rightarrow> Some (Inr (c, w))
      | a # as \<Rightarrow>
          (case a of
             CC_disconnect \<Rightarrow> client_run_calls E as (client_disconnect c) w
           | CC_connect hostname service \<Rightarrow>
               dbind (Some (client_connect hostname service c)) (\<lambda>c1. client_run_calls E as c1 w)
           | CC_send_message msg \<Rightarrow>
               dbind (dbind (send_ec E (cl_conn c) msg (cl_ec c) (sf_bits sf_none) w) (\<lambda>r.
                        let c1 = c\<lparr>cl_ec := fst (snd r)\<rparr>; w1 = snd (snd r) in
                        if ec_bool (fst (snd r))
                        then (case cl_on_disconnect c1 of
                                None \<Rightarrow> Some (Inl Bad_function_call)
                              | Some h \<Rightarrow> client_run_calls E (fst (h w1)) c1 (snd (h w1)))
                        else Some (Inr (c1, w1))))
                 (\<lambda>r. client_run_calls E as (fst r) (snd r))))"

definition client_invoke ::
  "'w env \<Rightarrow> ('w \<Rightarrow> client_call list \<times> 'w) option \<Rightarrow> 'w client \<Rightarrow> 'w \<Rightarrow> ('w client \<times> 'w) run" where
  "client_invoke E h c w =
     (case h of None \<Rightarrow> Some (Inl Bad_function_call)
      | Some f \<Rightarrow> client_run_calls E (fst (f w)) c (snd (f w)))"

definition send_message :: "'w env \<Rightarrow> buffer \<Rightarrow> 'w client \<Rightarrow> 'w \<Rightarrow> ('w client \<times> 'w) run" where
  "send_message E msg c w =
     dbind (send_ec E (cl_conn c) msg (cl_ec c) (sf_bits sf_none) w) (\<lambda>(_, ec, w1).
       let c1 = c\<lparr>cl_ec := ec\<rparr> in
       if ec_bool ec then client_invoke E (cl_on_disconnect c1) c1 w1 else Some (Inr (c1, w1)))"

section \<open>The network thread\<close>

definition client_handle_incoming_messages :: "'w env \<Rightarrow> 'w client \<Rightarrow> 'w \<Rightarrow> ('w client \<times> 'w) run" where
  "client_handle_incoming_messages E c w =
     (if \<not> is_connected (cl_conn c) then client_invoke E (cl_on_disconnect c) c w
      else (case has_data_available E (cl_conn c) w of
              (available, w1) \<Rightarrow>
                if available then Some (Inr (c, w1))
                else (case receive_max_ec E (cl_conn c) (cl_ec c) (rf_bits rf_none) w1 of
                        (data, ec, conn, w2) \<Rightarrow>
                          (let c1 = c\<lparr>cl_ec := ec, cl_conn := conn\<rparr>
                           in if ec_bool ec \<or> buffer_size data = 0
                              then client_invoke E (cl_on_disconnect c1) c1 w2
                              else client_invoke E (map_option (\<lambda>h. h data) (cl_on_data c1)) c1 w2))))"

partial_function (option) client_loop :: "'w env \<Rightarrow> 'w client \<Rightarrow> 'w \<Rightarrow> ('w client \<times> 'w) run" where
  "client_loop E c w =
     (if cl_running c
      then dbind (client_handle_incoming_messages E c w) (\<lambda>r. client_loop E (fst r) (snd r))
      else Some (Inr (c, w)))"

definition client_thread_start :: "'w env \<Rightarrow> 'w client \<Rightarrow> 'w \<Rightarrow> ('w client \<times> 'w) result" where
  "client_thread_start E c w =
     rbind (resolve_ec E (cl_hostname c) (cl_service c) (cl_ec c) w) (\<lambda>(remote_endpoints, ec, w1).
       if ec_bool ec then Inl Exit_failure
       else rbind (connect_ec E (cl_conn c) remote_endpoints ec w1) (\<lambda>(_, ec2, conn, w2).
         if ec_bool ec2 then Inl Exit_failure
         else Inr (c\<lparr>cl_ec := ec2, cl_conn := conn\<rparr>, w2)))"

definition client_network_thread :: "'w env \<Rightarrow> 'w client \<Rightarrow> 'w \<Rightarrow> ('w client \<times> 'w) run" where
  "client_network_thread E c w =
     dbind (Some (client_thread_start E c w)) (\<lambda>(c1, w1).
     dbind (client_invoke E (cl_on_connect c1) c1 w1) (\<lambda>(c2, w2).
     dbind (client_loop E c2 w2) (\<lambda>(c3, w3).
       case disconnect E (cl_conn c3) w3 of
         (conn, w4) \<Rightarrow>
           let c4 = c3\<lparr>cl_conn := conn\<rparr> in
           dbind (client_invoke E (cl_on_disconnect c4) c4 w4) (\<lambda>(c5, w5).
             Some (Inr (c5\<lparr>cl_thread := Thread_finished\<rparr>, w5))))))"

text \<open>The destructor joins the thread if there is one (in the model the thread does all its work at
  that point), then the connection is destroyed.\<close>

definition client_destroy :: "'w env \<Rightarrow> 'w client \<Rightarrow> 'w \<Rightarrow> 'w run" where
  "client_destroy E c w =
     dbind (if joinable (cl_thread c) \<and> cl_thread c \<noteq> Thread_finished then client_network_thread E c w
            else Some (Inr (c, w)))
       (\<lambda>(c1, w1). Some (Inr (connection_destroy E (cl_conn c1) w1)))"

end
