(* ===== verification/Client_Properties.thy ===== *)
theory Client_Properties
  imports Clients
begin

text \<open>
  Facts about the client: predicates kept by every call of a handler (\<open>client_invariant\<close>) and by
  every round of the network thread (\<open>client_net_invariant\<close>), and the properties of the client.
\<close>

unbundle bit_operations_syntax

section \<open>Invariants\<close>

lemma run_call_send:
  "client_run_calls E (CC_send_message msg # as) c w =
     dbind (send_message E msg c w) (\<lambda>r. client_run_calls E as (fst r) (snd r))"
  unfolding send_message_def client_invoke_def case_prod_beta' Let_def
  by (subst client_run_calls.simps) (simp add: Let_def)

locale client_invariant =
  fixes I :: "'w client \<Rightarrow> bool"
  assumes I_ec: "I c \<Longrightarrow> I (c\<lparr>cl_ec := ec\<rparr>)"
    and I_disconnect: "I c \<Longrightarrow> I (client_disconnect c)"
    and I_connect: "I c \<Longrightarrow> client_connect hostname service c = Inr c' \<Longrightarrow> I c'"
begin

lemma run_calls_inv:
  assumes "I c" and "client_run_calls E calls c w = Some (Inr (c', w'))"
  shows "I c'"
proof -
  let ?P = "\<lambda>E calls c w r. I c \<longrightarrow> (\<forall>c' w'. r = Inr (c', w') \<longrightarrow> I c')"
  have "?P E calls c w r" if "client_run_calls E calls c w = Some r" for r
    using that
  proof (rule client_run_calls.raw_induct [where P = ?P, rotated], goal_cases)
    case (1 rec E calls c w r)
    have rec: "I c'" if "rec E calls c w = Some (Inr (c', w'))" "I c" for E calls c w c' w'
      using 1(1) [OF that(1)] that(2) by blast
    show ?case
    proof (cases calls)
      case (Cons a as)
      with 1(2) show ?thesis
        by (cases a) (auto simp: bind_simps Let_def split: if_splits option.splits
            dest!: rec dest: I_connect simp: I_ec I_disconnect)
    qed (use 1(2) in auto)
  qed
  with assms show ?thesis by blast
qed

lemma invoke_inv: "I c \<Longrightarrow> client_invoke E h c w = Some (Inr (c', w')) \<Longrightarrow> I c'"
  by (auto simp: client_invoke_def dest: run_calls_inv split: option.splits)

end

locale client_net_invariant = client_invariant I for I :: "'w client \<Rightarrow> bool" +
  assumes I_conn: "I c \<Longrightarrow> conn = cl_conn c \<or> conn = connection_new \<Longrightarrow> I (c\<lparr>cl_conn := conn\<rparr>)"
begin

lemma handle_incoming_messages_inv:
  assumes "I c" and "client_handle_incoming_messages E c w = Some (Inr (c', w'))"
  shows "I c'"
proof (cases "is_connected (cl_conn c)")
  case False
  with assms show ?thesis by (auto simp: client_handle_incoming_messages_def intro: invoke_inv)
next
  case True
  obtain av w1 where av: "has_data_available E (cl_conn c) w = (av, w1)" by fastforce
  show ?thesis
  proof (cases av)
    case True
    with assms av \<open>is_connected (cl_conn c)\<close> show ?thesis by (simp add: client_handle_incoming_messages_def)
  next
    case False
    obtain d ec conn w2 where rc: "receive_max_ec E (cl_conn c) (cl_ec c) 0 w1 = (d, ec, conn, w2)" by (metis prod.exhaust)
    have "I (c\<lparr>cl_ec := ec, cl_conn := conn\<rparr>)"
      using I_conn [OF I_ec [OF assms(1)], of conn ec] receive_max_conn [OF rc] by simp
    then show ?thesis
      using assms(2) av False True rc
      by (auto simp: client_handle_incoming_messages_def Let_def intro: invoke_inv split: if_splits)
  qed
qed

lemma loop_inv:
  assumes "I c" and "client_loop E c w = Some (Inr (c', w'))"
  shows "I c'"
proof -
  have "I c \<longrightarrow> (\<forall>c' w'. r = Inr (c', w') \<longrightarrow> I c')" if "client_loop E c w = Some r" for r
    using that
    by (rule client_loop.raw_induct
        [where P = "\<lambda>E c w r. I c \<longrightarrow> (\<forall>c' w'. r = Inr (c', w') \<longrightarrow> I c')", rotated])
      (fastforce simp: bind_simps split: if_splits dest: handle_incoming_messages_inv)
  with assms show ?thesis by blast
qed

end

text \<open>Nothing the client does sets \<open>running_\<close>; a thread that was started stays joinable; a closed
  connection stays closed.\<close>

interpretation idle: client_net_invariant "\<lambda>c. \<not> cl_running c"
  by unfold_locales (auto simp: client_disconnect_def client_connect_def Let_def split: if_splits)

interpretation started: client_net_invariant "\<lambda>c. cl_thread c \<noteq> No_thread"
  by unfold_locales (auto simp: client_disconnect_def client_connect_def Let_def split: if_splits)

interpretation offline: client_net_invariant "\<lambda>c. conn_socket (cl_conn c) = 0"
  by unfold_locales (auto simp: client_disconnect_def client_connect_def connection_new_def Let_def split: if_splits)

lemma client_loop_exit:
  assumes "client_loop E c w = Some (Inr (c', w'))"
  shows "\<not> cl_running c'"
proof -
  have "\<forall>c' w'. r = Inr (c', w') \<longrightarrow> \<not> cl_running c'" if "client_loop E c w = Some r" for r
    using that
    by (rule client_loop.raw_induct
        [where P = "\<lambda>E c w r. \<forall>c' w'. r = Inr (c', w') \<longrightarrow> \<not> cl_running c'", rotated])
      (fastforce simp: bind_simps split: if_splits)
  with assms show ?thesis by blast
qed

lemma client_thread_start_result:
  assumes "client_thread_start E c w = Inr (c', w')"
  shows "cl_running c' = cl_running c \<and> cl_thread c' = cl_thread c"
  using assms by (auto simp: client_thread_start_def bind_simps split: if_splits)

lemma client_network_thread_cases:
  assumes "client_network_thread E c w = Some (Inr (c', w'))"
  obtains c1 w1 c2 w2 c3 w3 conn w4 c5 where "client_thread_start E c w = Inr (c1, w1)"
    "client_invoke E (cl_on_connect c1) c1 w1 = Some (Inr (c2, w2))"
    "client_loop E c2 w2 = Some (Inr (c3, w3))" "disconnect E (cl_conn c3) w3 = (conn, w4)"
    "client_invoke E (cl_on_disconnect c3) (c3\<lparr>cl_conn := conn\<rparr>) w4 = Some (Inr (c5, w'))"
    "c' = c5\<lparr>cl_thread := Thread_finished\<rparr>"
  using assms by (auto simp: client_network_thread_def bind_simps Let_def split_beta) (metis prod.collapse)

text \<open>A client with handlers that make no calls, and the start of its thread on the small kernel.\<close>

definition ex_conn_client :: "bool \<Rightarrow> 'w client" where
  "ex_conn_client b = (client_new b)
     \<lparr>cl_on_data := Some (\<lambda>d w. ([], w)), cl_on_connect := Some (\<lambda>w. ([], w)), cl_on_disconnect := Some (\<lambda>w. ([], w)),
      cl_thread := Thread_running, cl_hostname := ''host'', cl_service := ''80''\<rparr>"

lemma sim_client_start:
  "\<exists>conn. conn_socket conn = 3 \<and> client_thread_start sim (ex_conn_client b) k0 =
     Inr ((ex_conn_client b)\<lparr>cl_conn := conn\<rparr>, k0\<lparr>k_next := 4, k_open := [3]\<rparr>)"
proof -
  let ?e = "node_endpoint (Addrinfo 6 sim_addr 16 None)"
  have r: "resolve_ec sim ''host'' ''80'' no_error k0 = Inr ([?e, ?e], no_error, k0)"
    by (simp add: resolve_ec_def getaddrinfo_def any_address_def sim_calls c_str_def from_native_address_simps
        sim_addr_def node_endpoint_def)
  have "\<exists>conn. conn_socket conn = 3 \<and> connect_ec sim connection_new [?e, ?e] no_error k0 =
      Inr ((), no_error, conn, k0\<lparr>k_next := 4, k_open := [3]\<rparr>)"
    by (simp add: connect_ec_def try_connect_def sim_calls k0_def family_def node_endpoint_def
        sim_addr_def sa_family_def byte_at_def protocol_def get_local_endpoint_def get_remote_endpoint_def
        get_endpoint_def from_native_address_simps)
  then show ?thesis using r by (auto simp: client_thread_start_def ex_conn_client_def client_new_def)
qed

lemma quiet_invoke: "client_invoke E (Some (\<lambda>w. ([], w))) c w = Some (Inr (c, w))"
  by (simp add: client_invoke_def client_run_calls.simps)

section \<open>Properties\<close>

text \<open>When the client's network thread returns, the client is not running and its connection is
  closed. A client can be connected once: another \<open>connect\<close>, before or after the thread has ended,
  ends the process.\<close>

lemma client_thread_end:
  assumes "client_connect hostname service c = Inr c1"
  shows "client_connect h s c1 = Inl Terminate
    \<and> (client_network_thread E c1 w = Some (Inr (c2, w2)) \<longrightarrow>
        \<not> client_is_running c2 \<and> \<not> client_is_connected c2 \<and> cl_thread c2 = Thread_finished
        \<and> client_connect h s c2 = Inl Terminate)"
proof (intro conjI impI)
  show "client_connect h s c1 = Inl Terminate"
    using assms by (auto simp: client_connect_def joinable_def Let_def split: if_splits)
next
  assume "client_network_thread E c1 w = Some (Inr (c2, w2))"
  then obtain d3 v3 conn v4 d5 d2 v2 where lp: "client_loop E d2 v2 = Some (Inr (d3, v3))"
    and dc: "disconnect E (cl_conn d3) v3 = (conn, v4)"
    and inv: "client_invoke E (cl_on_disconnect d3) (d3\<lparr>cl_conn := conn\<rparr>) v4 = Some (Inr (d5, w2))"
    and c2: "c2 = d5\<lparr>cl_thread := Thread_finished\<rparr>"
    by (rule client_network_thread_cases)
  have "\<not> cl_running d3" using client_loop_exit [OF lp] .
  then have r: "\<not> cl_running d5" using idle.invoke_inv [OF _ inv] by simp
  have "conn_socket conn = 0" using conn_owner.released [OF dc] .
  then have o: "conn_socket (cl_conn d5) = 0" using offline.invoke_inv [OF _ inv] by simp
  show "\<not> client_is_running c2" using r c2 by (simp add: client_is_running_def)
  show "\<not> client_is_connected c2" using o c2 by (simp add: client_is_connected_def is_connected_def)
  show "cl_thread c2 = Thread_finished" using c2 by simp
  then show "client_connect h s c2 = Inl Terminate" by (simp add: client_connect_def joinable_def)
qed

text \<open>Nothing in the client sets its running flag. If the indeterminate value it is constructed with
  is false, the network thread connects, calls the connect handler, and at once disconnects and calls
  the disconnect handler: it never receives anything.\<close>

lemma client_never_starts_loop:
  assumes "\<not> client_is_running c" and "client_thread_start E c w = Inr (c1, w1)"
    and "client_invoke E (cl_on_connect c1) c1 w1 = Some (Inr (c2, w2))" and "disconnect E (cl_conn c2) w2 = (conn, w3)"
  shows "client_network_thread E c w =
    dbind (client_invoke E (cl_on_disconnect c2) (c2\<lparr>cl_conn := conn\<rparr>) w3)
      (\<lambda>(c5, w5). Some (Inr (c5\<lparr>cl_thread := Thread_finished\<rparr>, w5)))"
proof -
  have "\<not> cl_running c1" using client_thread_start_result [OF assms(2)] assms(1) by (simp add: client_is_running_def)
  then have "\<not> cl_running c2" using assms(3) by (rule idle.invoke_inv)
  then have "client_loop E c2 w2 = Some (Inr (c2, w2))" by (simp add: client_loop.simps)
  then show ?thesis using assms(2-4) by (simp add: client_network_thread_def)
qed



text \<open>A running client whose socket has data waiting, and goes on having it, polls forever: its
  network thread never reads the data, never calls a handler and never returns.\<close>

lemma client_starves:
  assumes "client_is_running c" and "is_connected (cl_conn c)" and "w \<in> W"
    and "\<And>w. w \<in> W \<Longrightarrow> \<exists>w1 \<in> W. has_data_available E (cl_conn c) w = (True, w1)"
  shows "client_loop E c w = None"
proof -
  let ?P = "\<lambda>E' d w (r :: fault + 'a client \<times> 'a). E' = E \<longrightarrow> d = c \<longrightarrow> w \<notin> W"
  have "?P E c w r" if "client_loop E c w = Some r" for r
    using that
  proof (rule client_loop.raw_induct [where P = ?P, rotated])
    fix rec E' d and w :: 'a and y
    assume IH: "\<And>E' d w y. rec E' d w = Some y \<Longrightarrow> ?P E' d w y"
      and eq: "(if cl_running d then dbind (client_handle_incoming_messages E' d w) (\<lambda>r. rec E' (fst r) (snd r))
          else Some (Inr (d, w))) = Some y"
    show "?P E' d w y"
    proof (intro impI notI)
      assume *: "E' = E" "d = c" "w \<in> W"
      obtain w1 where w1: "w1 \<in> W" "has_data_available E (cl_conn c) w = (True, w1)"
        using assms(4) [OF *(3)] by blast
      then have "client_handle_incoming_messages E c w = Some (Inr (c, w1))"
        using assms(2) by (simp add: client_handle_incoming_messages_def)
      with eq * w1(1) IH [of E c w1 y] assms(1) show False by (simp add: client_is_running_def)
    qed
  qed
  with assms(3) show ?thesis by (cases "client_loop E c w") auto
qed



end
