(* ===== verification/Delivery.thy ===== *)
theory Delivery
  imports Server_System Client_Properties
begin

text \<open>
  A client and a server on the two ends of one connection. The kernel between them is a reliable stream
  (\<open>stream_contract\<close>): what \<open>send\<close> takes on one end is queued in order, and \<open>recv\<close> on the other end
  takes a non-empty piece off the front of the queue while there is one. What the client's
  \<open>send_message\<close> hands to its socket then reaches the data handler of the server, complete and in
  order; the pieces in which it arrives are up to the kernel and are no longer than the receive buffer.
\<close>

unbundle bit_operations_syntax

section \<open>A reliable stream\<close>

text \<open>The bytes on their way, and the buffers the server's program has recorded, as functions of the
  world.\<close>

record 'w stream =
  queue :: "'w \<Rightarrow> bytes"
  seen :: "'w \<Rightarrow> buffer list"

definition stream_contract :: "'w env \<Rightarrow> socket_type \<Rightarrow> socket_type \<Rightarrow> 'w stream \<Rightarrow> bool" where
  "stream_contract E a b S \<longleftrightarrow>
     (\<forall>bs fl w r w'. sys_send E a bs fl w = (r, w') \<longrightarrow>
        queue S w' = queue S w @ (if r = -1 then [] else take (nat r) bs) \<and> seen S w' = seen S w)
   \<and> (\<forall>n w r bs w'. 0 < n \<longrightarrow> queue S w \<noteq> [] \<longrightarrow> sys_recv E b n 0 w = ((r, bs), w') \<longrightarrow>
        0 < r \<and> queue S w = bs @ queue S w' \<and> seen S w' = seen S w)"

text \<open>A data handler that records what it is given and makes no calls on the server.\<close>

definition recorder :: "'w stream \<Rightarrow> (client_id \<Rightarrow> buffer \<Rightarrow> 'w \<Rightarrow> api_call list \<times> 'w) \<Rightarrow> bool" where
  "recorder S h \<longleftrightarrow> (\<forall>k d w. fst (h k d w) = [] \<and> queue S (snd (h k d w)) = queue S w
     \<and> seen S (snd (h k d w)) = seen S w @ [d])"

section \<open>The sending end\<close>

lemma send_loop_stream:
  assumes "send_contract E" and "stream_contract E a b S" and "length buf < 2 ^ 64" and "sent \<le> length buf"
  shows "\<exists>ec' w' bs. send_loop E a buf sent fl ec w = Some (Inr ((), ec', w'))
     \<and> delivered (drop sent buf) ec ec' bs \<and> queue S w' = queue S w @ bs \<and> seen S w' = seen S w"
  using assms(4)
proof (induction "length buf - sent" arbitrary: sent w rule: less_induct)
  case less
  show ?case
  proof (cases "sent < length buf")
    case False
    with less.prems show ?thesis by (simp add: send_loop_done delivered_def)
  next
    case True
    obtain r w1 where call: "sys_send E a (drop sent buf) (fl OR MSG_NOSIGNAL) w = (r, w1)" by fastforce
    have q: "queue S w1 = queue S w @ (if r = -1 then [] else take (nat r) (drop sent buf))" "seen S w1 = seen S w"
      using assms(2) call unfolding stream_contract_def by blast+
    consider "r = -1" "int_of_ssize r = -1" "0 < sys_errno E w1"
      | "int_of_ssize r = r" "1 \<le> r" "size_add sent r = sent + nat r" "sent + nat r \<le> length buf"
      using send_step [OF assms(1) True assms(3) call] by blast
    then show ?thesis
    proof cases
      case 1
      with True call q show ?thesis
        by (intro exI [of _ "sys_errno E w1"] exI [of _ w1] exI [of _ "[]"])
          (auto simp: send_loop.simps [of E a buf sent] delivered_def Let_def intro!: exI [of _ 0])
    next
      case 2
      then have "length buf - (sent + nat r) < length buf - sent" using True by linarith
      from less.hyps [OF this, of w1] 2 obtain ec' w' bs where
        run: "send_loop E a buf (sent + nat r) fl ec w1 = Some (Inr ((), ec', w'))"
        and res: "delivered (drop (nat r) (drop sent buf)) ec ec' bs" "queue S w' = queue S w1 @ bs" "seen S w' = seen S w1"
        by (auto simp: add.commute)
      have "delivered (drop sent buf) ec ec' (take (nat r) (drop sent buf) @ bs)"
        using delivered_extend [OF res(1)] 2 True by simp
      moreover have "send_loop E a buf sent fl ec w = Some (Inr ((), ec', w'))"
        using True call run 2 by (simp add: send_loop.simps [of E a buf sent] Let_def)
      ultimately show ?thesis using res q 2 by (intro exI) auto
    qed
  qed
qed

lemma send_message_stream:
  assumes "send_contract E" and "stream_contract E a b S" and "conn_socket (cl_conn c) = a" and "a \<noteq> 0"
    and "\<not> ec_bool (cl_ec c)" and "0 < buffer_size msg" and "buffer_size msg < 2 ^ 64"
  obtains (sent) w1 where "send_message E msg c w = Some (Inr (c, w1))"
      "queue S w1 = queue S w @ buf_data msg" "seen S w1 = seen S w"
  | (failed) ec n w1 where "0 < ec" "n < buffer_size msg" "queue S w1 = queue S w @ take n (buf_data msg)"
      "send_message E msg c w = client_invoke E (cl_on_disconnect c) (c\<lparr>cl_ec := ec\<rparr>) w1"
proof -
  obtain ec w1 bs where run: "send_loop E a (buf_data msg) 0 (translate_send_flags E 0) (cl_ec c) w = Some (Inr ((), ec, w1))"
    and del: "delivered (buf_data msg) (cl_ec c) ec bs" and q: "queue S w1 = queue S w @ bs" "seen S w1 = seen S w"
    using send_loop_stream [OF assms(1,2), of "buf_data msg" 0 "translate_send_flags E 0" "cl_ec c" w] assms(7) by (auto simp: buffer_size_def)
  have go: "send_message E msg c w = (if ec_bool ec
      then client_invoke E (cl_on_disconnect c) (c\<lparr>cl_ec := ec\<rparr>) w1 else Some (Inr (c\<lparr>cl_ec := ec\<rparr>, w1)))"
    using run assms(3,4,6) by (simp add: send_message_def send_ec_def is_connected_def Let_def)
  from del show ?thesis unfolding delivered_def
  proof (elim disjE conjE exE)
    assume "ec = cl_ec c" "bs = buf_data msg"
    with go q assms(5) show ?thesis by (intro sent [of w1]) simp_all
  next
    fix n assume "0 < ec" "n < length (buf_data msg)" "bs = take n (buf_data msg)"
    with go q show ?thesis by (intro failed [of ec n w1]) (auto simp: buffer_size_def ec_bool_def)
  qed
qed

section \<open>The receiving end\<close>

abbreviation readable_on :: "socket_type \<Rightarrow> socket_status_info" where
  "readable_on fd \<equiv> \<lparr>si_fd = fd, si_status = ss_bits ss_readable\<rparr>"

lemma handle_event_stream:
  assumes "recv_contract E" and "bitmask_lib E" and "stream_contract E a b S" and "recorder S h"
    and "client_info_from_native_socket s b = Inr (Some (i, ci))" and "conn_socket (ci_conn ci) = b" and "b \<noteq> 0"
    and "\<not> ec_bool (srv_ec s)" and "srv_on_data s = Some h" and "queue S w \<noteq> []"
  obtains d w' where "handle_event E (readable_on b) s w = Some (Inr (s, w'))" "buf_data d \<noteq> []"
    "buffer_size d \<le> max_buffer_size" "queue S w = buf_data d @ queue S w'" "seen S w' = seen S w @ [d]"
proof -
  obtain r bs w1 where rc: "sys_recv E b max_buffer_size 0 w = ((r, bs), w1)" by (metis prod.exhaust)
  have m: "0 < max_buffer_size" by (simp add: max_buffer_size_def)
  have q: "0 < r" "queue S w = bs @ queue S w1" "seen S w1 = seen S w"
    using assms(3) rc assms(10) m unfolding stream_contract_def by blast+
  have bits: "bm_and E x y = x AND y" "bm_or E x y = x OR y" for x y
    using assms(2) by (simp_all add: bitmask_lib_and bitmask_lib_or)
  have c: "is_connected (ci_conn ci)" using assms(6,7) by (simp add: is_connected_def)
  have rx: "receive_ec E (ci_conn ci) max_buffer_size (srv_ec s) 0 w = (\<lparr>buf_data = bs\<rparr>, srv_ec s, ci_conn ci, w1)"
      "length bs \<le> max_buffer_size"
    using receive_ec_data [OF c _ _ assms(1) q(1), of max_buffer_size 0 w bs w1 0 "srv_ec s"] rc assms(6) by (simp_all add: bits)
  have ne: "bs \<noteq> []" using assms(1) rc q(1) unfolding recv_contract_def by force
  have at: "(srv_clients s)[i := Some ci] = srv_clients s"
    using by_fd.found [OF assms(5)] by (metis list_update_id)
  obtain w2 where h: "h (ci_id ci) \<lparr>buf_data = bs\<rparr> w1 = ([], w2)"
    using assms(4) unfolding recorder_def by (metis prod.collapse)
  then have w2: "queue S w2 = queue S w1" "seen S w2 = seen S w1 @ [\<lparr>buf_data = bs\<rparr>]"
    using assms(4) unfolding recorder_def by (metis snd_conv)+
  have "handle_event E (readable_on b) s w = Some (Inr (s, w2))"
    using assms(5,8,9) rx(1) at h ne
    by (simp add: handle_event_def bits receive_max_ec_def buffer_size_def invoke_def)
  then show ?thesis
    using that [of w2 "\<lparr>buf_data = bs\<rparr>"] ne rx(2) q w2 by (simp add: buffer_size_def)
qed

lemma handle_events_stream:
  assumes "recv_contract E" and "bitmask_lib E" and "stream_contract E a b S" and "recorder S h"
    and "client_info_from_native_socket s b = Inr (Some (i, ci))" and "conn_socket (ci_conn ci) = b" and "b \<noteq> 0"
    and "\<not> ec_bool (srv_ec s)" and "srv_on_data s = Some h" and "is_running s"
  shows "\<exists>ds w'. handle_events E (replicate (length ds) (readable_on b)) s w = Some (Inr (s, w'))
    \<and> concat (map buf_data ds) = queue S w \<and> (\<forall>d \<in> set ds. 0 < buffer_size d \<and> buffer_size d \<le> max_buffer_size)
    \<and> seen S w' = seen S w @ ds \<and> queue S w' = []"
proof (induction "length (queue S w)" arbitrary: w rule: less_induct)
  case less
  show ?case
  proof (cases "queue S w = []")
    case True
    then show ?thesis by (intro exI [of _ "[]"] exI [of _ w]) simp
  next
    case False
    obtain d w1 where d: "handle_event E (readable_on b) s w = Some (Inr (s, w1))" "buf_data d \<noteq> []"
      "buffer_size d \<le> max_buffer_size" "queue S w = buf_data d @ queue S w1" "seen S w1 = seen S w @ [d]"
      using False by (rule handle_event_stream [OF assms(1-9)])
    then have "length (queue S w1) < length (queue S w)" by simp
    from less [OF this] obtain ds w' where "handle_events E (replicate (length ds) (readable_on b)) s w1 = Some (Inr (s, w'))"
      "concat (map buf_data ds) = queue S w1" "\<forall>d \<in> set ds. 0 < buffer_size d \<and> buffer_size d \<le> max_buffer_size"
      "seen S w' = seen S w1 @ ds" "queue S w' = []" by blast
    with d assms(10) show ?thesis
      by (intro exI [of _ "d # ds"] exI [of _ w']) (auto simp: is_running_def buffer_size_def)
  qed
qed

section \<open>The rounds of the server\<close>

text \<open>\<open>poll\<close> when nothing happens but on the receiving end \<open>b\<close> of the stream: the listening socket and the
  other clients are idle, and \<open>b\<close> is readable while bytes are on the way.\<close>

definition poll_stream :: "'w env \<Rightarrow> socket_type \<Rightarrow> 'w stream \<Rightarrow> bool" where
  "poll_stream E b S \<longleftrightarrow> (\<forall>ps tm w n f w'. sys_poll E ps tm w = ((n, f), w') \<longrightarrow>
     (\<forall>i < length ps. f i = (if pfd_fd (ps ! i) = b \<and> queue S w \<noteq> [] then 1 else 0))
     \<and> queue S w' = queue S w \<and> seen S w' = seen S w)"

text \<open>A running server with a recording handler that has \<open>b\<close> in its table and, once, in its poll group.\<close>

definition listens_on :: "socket_type \<Rightarrow> 'w stream \<Rightarrow> 'w server \<Rightarrow> bool" where
  "listens_on b S s \<longleftrightarrow> is_running s \<and> \<not> ec_bool (srv_ec s) \<and> \<not> srv_has_disconnected s
     \<and> acc_socket (srv_acceptor s) \<noteq> b \<and> b \<noteq> 0 \<and> filter (\<lambda>fd. fd = b) (pg_fds (srv_poll s)) = [b]
     \<and> (\<exists>i ci. client_info_from_native_socket s b = Inr (Some (i, ci)) \<and> conn_socket (ci_conn ci) = b)
     \<and> (\<exists>h. srv_on_data s = Some h \<and> recorder S h)"

lemma listens_on_poll: "pg_fds g = pg_fds (srv_poll s) \<Longrightarrow> listens_on b S (s\<lparr>srv_poll := g\<rparr>) = listens_on b S s"
  by (simp add: listens_on_def is_running_def client_info_from_native_socket_def)

lemma idle_acceptor:
  assumes "bitmask_lib E" and "poll_stream E b S" and "acc_socket a \<noteq> b"
  shows "\<exists>w'. has_pending_connection E a w = (False, w') \<and> queue S w' = queue S w \<and> seen S w' = seen S w"
proof -
  obtain n f w' where p: "sys_poll E [poll_request (acc_socket a)] 0 w = ((n, f), w')" by (metis prod.exhaust)
  then have f: "f 0 = 0" "queue S w' = queue S w" "seen S w' = seen S w"
    using assms(2,3) unfolding poll_stream_def by (fastforce simp: poll_request_def)+
  obtain st where "poll_socket E (acc_socket a) 0 w = (st, w')" "bm_and E st (ss_bits ss_readable) = 0"
    using poll_socket_readable [OF assms(1) p] f(1) by auto
  with f show ?thesis by (simp add: has_pending_connection_def)
qed

lemma poll_events:
  assumes "bitmask_lib E" and "poll_stream E b S" and "filter (\<lambda>fd. fd = b) (pg_fds g) = [b]"
  shows "\<exists>g' w'. pg_poll E g tm w = (if queue S w = [] then [] else [readable_on b], g', w')
    \<and> pg_fds g' = pg_fds g \<and> queue S w' = queue S w \<and> seen S w' = seen S w"
proof -
  obtain n f w' where p: "sys_poll E (pg_pfds g) tm w = ((n, f), w')" by (metis prod.exhaust)
  have f: "\<forall>i < length (pg_pfds g). f i = (if pfd_fd (pg_pfds g ! i) = b \<and> queue S w \<noteq> [] then 1 else 0)"
    "queue S w' = queue S w" "seen S w' = seen S w"
    using assms(2) p unfolding poll_stream_def by blast+
  let ?h = "\<lambda>p. p\<lparr>pfd_revents := if pfd_fd p = b \<and> queue S w \<noteq> [] then 1 else 0\<rparr>"
  have ps: "write_revents f (pg_pfds g) = map ?h (pg_pfds g)"
    using f(1) by (intro nth_equalityI) (simp_all add: nth_write_revents)
  have st: "ssm_from_revents E 1 = ss_bits ss_readable"
    using assms(1) by (simp add: ssm_from_revents_def bitmask_lib_or)
  obtain z where "filter (\<lambda>p. pfd_fd p = b) (pg_pfds g) = [z]" "pfd_fd z = b"
    using assms(3) by (auto simp: pg_fds_def filter_map comp_def)
  then have "collect_events E (map ?h (pg_pfds g)) = (if queue S w = [] then [] else [readable_on b])"
    using st by (auto simp: collect_events_filter filter_map comp_def cong: filter_cong map_cong)
  with p ps f(2,3) show ?thesis
    using pg_poll_fds [of E g tm w] by (simp add: pg_poll_def Let_def)
qed

text \<open>One round: if bytes are on the way, one piece of them is handed to the data handler.\<close>

lemma tick_stream:
  assumes "recv_contract E" and "bitmask_lib E" and "stream_contract E a b S" and "poll_stream E b S"
    and "listens_on b S s" and "queue S w \<noteq> []"
  obtains g d w' where "tick E s w = Some (Inr (s\<lparr>srv_poll := g\<rparr>, w'))" "pg_fds g = pg_fds (srv_poll s)" "buf_data d \<noteq> []"
    "buffer_size d \<le> max_buffer_size" "queue S w = buf_data d @ queue S w'" "seen S w' = seen S w @ [d]"
proof -
  have s: "srv_running s" "\<not> srv_has_disconnected s" "acc_socket (srv_acceptor s) \<noteq> b"
    "filter (\<lambda>fd. fd = b) (pg_fds (srv_poll s)) = [b]" using assms(5) by (simp_all add: listens_on_def is_running_def)
  obtain w1 where p: "has_pending_connection E (srv_acceptor s) w = (False, w1)" "queue S w1 = queue S w" "seen S w1 = seen S w"
    using idle_acceptor [OF assms(2,4) s(3)] by blast
  obtain g w2 where g: "pg_poll E (srv_poll s) 0 w1 = ([readable_on b], g, w2)" "pg_fds g = pg_fds (srv_poll s)"
    "queue S w2 = queue S w" "seen S w2 = seen S w"
    using poll_events [OF assms(2,4) s(4), of 0 w1] p assms(6) by auto
  let ?s = "s\<lparr>srv_poll := g\<rparr>"
  have "listens_on b S ?s" using assms(5) listens_on_poll [OF g(2)] by blast
  then obtain i ci h where l: "client_info_from_native_socket ?s b = Inr (Some (i, ci))" "conn_socket (ci_conn ci) = b" "b \<noteq> 0"
    "\<not> ec_bool (srv_ec ?s)" "srv_on_data ?s = Some h" and h: "recorder S h" by (auto simp: listens_on_def)
  obtain d w3 where d: "handle_event E (readable_on b) ?s w2 = Some (Inr (?s, w3))" "buf_data d \<noteq> []"
    "buffer_size d \<le> max_buffer_size" "queue S w2 = buf_data d @ queue S w3" "seen S w3 = seen S w2 @ [d]"
    by (rule handle_event_stream [OF assms(1-3) h l, of w2]) (use g(3) assms(6) in simp)
  have "tick E s w = Some (Inr (?s, w3))"
    using s(1,2) p(1) g(1) d(1)
    by (simp add: tick_def handle_incoming_connections.simps handle_incoming_messages_def handle_disconnected_clients_def)
  from that [OF this g(2) d(2,3)] d(4,5) g(3,4) show ?thesis by simp
qed

lemma rounds_stream:
  assumes "recv_contract E" and "bitmask_lib E" and "stream_contract E a b S" and "poll_stream E b S" and "listens_on b S s"
  shows "\<exists>n g ds w'. sys_steps E (Ph_loop, s, w) (replicate n L_net) (Ph_loop, s\<lparr>srv_poll := g\<rparr>, w')
    \<and> concat (map buf_data ds) = queue S w \<and> (\<forall>d \<in> set ds. 0 < buffer_size d \<and> buffer_size d \<le> max_buffer_size)
    \<and> seen S w' = seen S w @ ds \<and> queue S w' = []"
  using assms(5)
proof (induction "length (queue S w)" arbitrary: s w rule: less_induct)
  case less
  show ?case
  proof (cases "queue S w = []")
    case True
    then show ?thesis by (intro exI [of _ 0] exI [of _ "srv_poll s"] exI [of _ "[]"] exI [of _ w]) simp
  next
    case False
    obtain g d w1 where d: "tick E s w = Some (Inr (s\<lparr>srv_poll := g\<rparr>, w1))" "pg_fds g = pg_fds (srv_poll s)" "buf_data d \<noteq> []"
      "buffer_size d \<le> max_buffer_size" "queue S w = buf_data d @ queue S w1" "seen S w1 = seen S w @ [d]"
      by (rule tick_stream [OF assms(1-4) less.prems False])
    have "length (queue S w1) < length (queue S w)" using d(3,5) by simp
    moreover have "listens_on b S (s\<lparr>srv_poll := g\<rparr>)" using less.prems listens_on_poll [OF d(2)] by blast
    ultimately obtain n g' ds w' where
      n: "sys_steps E (Ph_loop, s\<lparr>srv_poll := g\<rparr>, w1) (replicate n L_net) (Ph_loop, s\<lparr>srv_poll := g'\<rparr>, w')"
      and ds: "concat (map buf_data ds) = queue S w1" "\<forall>d \<in> set ds. 0 < buffer_size d \<and> buffer_size d \<le> max_buffer_size"
        "seen S w' = seen S w1 @ ds" "queue S w' = []"
      using less.hyps [of w1 "s\<lparr>srv_poll := g\<rparr>"] by auto
    have "srv_running s" using less.prems by (simp add: listens_on_def is_running_def)
    from runs_replicate_add [OF tick_steps [OF this d(1)] n] ds d(3-6) show ?thesis
      by (intro exI [of _ "4 + n"] exI [of _ g'] exI [of _ "d # ds"] exI [of _ w']) (auto simp: buffer_size_def)
  qed
qed

section \<open>A small stream\<close>

record pipe =
  p_queue :: bytes
  p_seen :: "buffer list"

definition pipe_env :: "pipe env" where
  "pipe_env = \<lparr>bm_or = (OR), bm_and = (AND), inet_ntop = (\<lambda>_ _ _. None), sys_errno = (\<lambda>_. 11),
     sys_socket = (\<lambda>_ _ _ w. (-1, w)), sys_connect = (\<lambda>_ _ _ w. (-1, w)), sys_setsockopt = (\<lambda>_ _ _ _ w. (-1, w)),
     sys_bind = (\<lambda>_ _ _ w. (-1, w)), sys_listen = (\<lambda>_ _ w. (-1, w)), sys_accept = (\<lambda>_ w. ((-1, [], 0), w)),
     sys_getsockname = (\<lambda>_ w. ((-1, [], 0), w)), sys_getpeername = (\<lambda>_ w. ((-1, [], 0), w)),
     sys_getsockopt = (\<lambda>_ _ _ _ w. ((-1, 0), w)),
     sys_send = (\<lambda>fd bs fl w. (min 3 (int (length bs)), w\<lparr>p_queue := p_queue w @ take 3 bs\<rparr>)),
     sys_recv = (\<lambda>fd n fl w. ((int (length (take (min n 2) (p_queue w))), take (min n 2) (p_queue w)),
        w\<lparr>p_queue := drop (min n 2) (p_queue w)\<rparr>)),
     sys_poll = (\<lambda>ps tm w. ((if p_queue w = [] then 0 else 1, \<lambda>i. if pfd_fd (ps ! i) = 7 \<and> p_queue w \<noteq> [] then 1 else 0), w)), sys_shutdown = (\<lambda>_ _ w. (-1, w)), sys_close = (\<lambda>_ w. (-1, w)),
     sys_getaddrinfo = (\<lambda>_ _ _ w. ((-2, None), w)), sys_freeaddrinfo = (\<lambda>_ w. w)\<rparr>"

definition pipe_stream :: "pipe stream" where
  "pipe_stream = \<lparr>queue = p_queue, seen = p_seen\<rparr>"

definition record_handler :: "client_id \<Rightarrow> buffer \<Rightarrow> pipe \<Rightarrow> api_call list \<times> pipe" where
  "record_handler k d w = ([], w\<lparr>p_seen := p_seen w @ [d]\<rparr>)"

lemma pipe_send: "sys_send pipe_env fd bs fl w = (min 3 (int (length bs)), w\<lparr>p_queue := p_queue w @ take 3 bs\<rparr>)"
  by (simp add: pipe_env_def)

lemma pipe_contracts:
  "send_contract pipe_env" "recv_contract pipe_env" "bitmask_lib pipe_env" "stream_contract pipe_env a b pipe_stream"
  "poll_stream pipe_env 7 pipe_stream" "recorder pipe_stream record_handler"
proof -
  show "send_contract pipe_env"
    by (auto simp: send_contract_def pipe_env_def min_def Suc_leI)
  show "recv_contract pipe_env" by (auto simp: recv_contract_def pipe_env_def)
  show "bitmask_lib pipe_env" by (simp add: bitmask_lib_def pipe_env_def)
  show "stream_contract pipe_env a b pipe_stream"
    by (auto simp: stream_contract_def pipe_env_def pipe_stream_def min_def)
  show "poll_stream pipe_env 7 pipe_stream" by (auto simp: poll_stream_def pipe_env_def pipe_stream_def)
  show "recorder pipe_stream record_handler" by (simp add: recorder_def pipe_stream_def record_handler_def)
qed

lemma pipe_hello:
  "send_loop pipe_env 4 ''hello'' 0 fl ec \<lparr>p_queue = [], p_seen = []\<rparr> =
     Some (Inr ((), ec, \<lparr>p_queue = ''hello'', p_seen = []\<rparr>))"
proof -
  have "send_loop pipe_env 4 ''hello'' 5 fl ec w = Some (Inr ((), ec, w))" for w
    by (rule send_loop_done) simp
  then have "send_loop pipe_env 4 ''hello'' 3 fl ec w = Some (Inr ((), ec, w\<lparr>p_queue := p_queue w @ ''lo''\<rparr>))" for w
    by (subst send_loop.simps) (simp add: pipe_send int_of_ssize_id size_add_small)
  then show ?thesis
    by (subst send_loop.simps) (simp add: pipe_send int_of_ssize_id size_add_small)
qed

section \<open>Property\<close>

text \<open>A message arrives: as the running server handles readable events of its end of the connection,
  finitely many of them hand the message to the data handler.\<close>

lemma message_arrives:
  assumes "send_contract E" and "recv_contract E" and "bitmask_lib E" and "stream_contract E a b S"
    and "conn_socket (cl_conn c) = a" and "a \<noteq> 0" and "\<not> ec_bool (cl_ec c)"
    and "0 < buffer_size msg" and "buffer_size msg < 2 ^ 64" and "queue S w = []"
    and "client_info_from_native_socket s b = Inr (Some (i, ci))" and "conn_socket (ci_conn ci) = b" and "b \<noteq> 0"
    and "\<not> ec_bool (srv_ec s)" and "srv_on_data s = Some h" and "recorder S h" and "is_running s"
  shows "(\<exists>ec n w1. 0 < ec \<and> n < buffer_size msg \<and> queue S w1 = take n (buf_data msg)
      \<and> send_message E msg c w = client_invoke E (cl_on_disconnect c) (c\<lparr>cl_ec := ec\<rparr>) w1)
    \<or> (\<exists>w1 ds w2. send_message E msg c w = Some (Inr (c, w1))
      \<and> handle_events E (replicate (length ds) \<lparr>si_fd = b, si_status = ss_bits ss_readable\<rparr>) s w1 = Some (Inr (s, w2))
      \<and> concat (map buf_data ds) = buf_data msg \<and> (\<forall>d \<in> set ds. 0 < buffer_size d \<and> buffer_size d \<le> 8192)
      \<and> seen S w2 = seen S w @ ds \<and> queue S w2 = [])"
proof (rule send_message_stream [OF assms(1,4-9), of w])
  fix w1
  assume sent: "send_message E msg c w = Some (Inr (c, w1))" "queue S w1 = queue S w @ buf_data msg" "seen S w1 = seen S w"
  obtain ds w2 where "handle_events E (replicate (length ds) (readable_on b)) s w1 = Some (Inr (s, w2))"
    "concat (map buf_data ds) = queue S w1" "\<forall>d \<in> set ds. 0 < buffer_size d \<and> buffer_size d \<le> max_buffer_size"
    "seen S w2 = seen S w1 @ ds" "queue S w2 = []"
    using handle_events_stream [OF assms(2-4) assms(16) assms(11-15) assms(17), of w1] by blast
  with sent assms(10) show ?thesis by (intro disjI2 exI) (auto simp: max_buffer_size_def)
qed (use assms(10) in auto)



end
