(* ===== verification/Ledger.thy ===== *)
theory Ledger
  imports Descriptors "HOL-Library.Multiset"
begin

text \<open>
  Book-keeping over the log of system calls: which descriptors the kernel handed out and which were
  closed, against the sockets a server owns, and the identifiers it gave to its clients, against the
  shared counter. \<open>balanced\<close> relates the server and its log before and after: what was owned or
  handed out is owned afterwards or was closed, each descriptor as often on one side as on the other, and
  new identifiers come from the interval the counter has moved over. Every step of the network thread
  is balanced.
\<close>

section \<open>The log\<close>

text \<open>Descriptors handed out by a successful \<open>accept\<close>, and the calls of \<open>accept\<close> that were made.\<close>

fun received :: "sys_event list \<Rightarrow> socket_type list" where
  "received [] = []"
| "received (Ev_accept fd r # t) = (if r = -1 then received t else r # received t)"
| "received (_ # t) = received t"

lemma received_append [simp]: "received (s @ t) = received s @ received t"
  by (induction s rule: received.induct) auto

fun accepts :: "sys_event list \<Rightarrow> nat" where
  "accepts [] = 0"
| "accepts (Ev_accept fd r # t) = Suc (accepts t)"
| "accepts (_ # t) = accepts t"

lemma accepts_append [simp]: "accepts (s @ t) = accepts s + accepts t"
  by (induction s rule: accepts.induct) auto

text \<open>Descriptor 0 stands for ``none'' in the library and is not counted.\<close>

abbreviation sockets :: "socket_type list \<Rightarrow> socket_type multiset" where
  "sockets fds \<equiv> mset (filter (\<lambda>fd. fd \<noteq> 0) fds)"

definition gain :: "sys_event list \<Rightarrow> socket_type multiset" where
  "gain u = sockets (opened u @ received u)"

definition loss :: "sys_event list \<Rightarrow> socket_type multiset" where
  "loss u = sockets (closed u)"

lemma gain_append [simp]: "gain (u @ v) = gain u + gain v"
  by (simp add: gain_def)

lemma loss_append [simp]: "loss (u @ v) = loss u + loss v"
  by (simp add: loss_def)

definition quiet :: "'w \<times> sys_event list \<Rightarrow> 'w \<times> sys_event list \<Rightarrow> bool" where
  "quiet x y \<longleftrightarrow> (\<exists>u. snd y = snd x @ u \<and> opened u = [] \<and> received u = [] \<and> closed u = [])"

lemma quiet_refl [simp]: "quiet x x"
  by (simp add: quiet_def)

lemma quiet_trans: "quiet x y \<Longrightarrow> quiet y z \<Longrightarrow> quiet x z"
  by (force simp: quiet_def)

interpretation logs: send_monotone "traced E" quiet for E
  by unfold_locales (auto simp: quiet_def traced_simps logged_def intro: quiet_trans split: prod.splits)

section \<open>The books of a server\<close>

definition socks :: "'w server \<Rightarrow> socket_type list" where
  "socks s = map (\<lambda>c. conn_socket (ci_conn c)) (infos (srv_clients s))"

definition owned :: "'w server \<Rightarrow> socket_type multiset" where
  "owned s = sockets (acc_socket (srv_acceptor s) # socks s)"

definition ids :: "'w server \<Rightarrow> client_id list" where
  "ids s = map ci_id (infos (srv_clients s))"

definition tidy :: "('w \<times> sys_event list) server \<Rightarrow> bool" where
  "tidy s \<longleftrightarrow> None \<notin> set (srv_clients s) \<and> handlers_keep quiet s"

lemma tidy_handlers:
  assumes "tidy s"
  shows "srv_on_data s = Some f \<Longrightarrow> quiet x (snd (f k d x))"
    and "srv_on_connect s = Some h \<Longrightarrow> quiet x (snd (h k x))"
    and "srv_on_disconnect s = Some h \<Longrightarrow> quiet x (snd (h k x))"
  using assms unfolding tidy_def handlers_keep_def by blast+

text \<open>The counter has moved by at most the number of calls of \<open>accept\<close>, and if it has not
  gone round, the identifiers in use are distinct and the new ones come from the interval in between.\<close>

definition fresh_ids :: "'w server \<Rightarrow> 'w server \<Rightarrow> sys_event list \<Rightarrow> bool" where
  "fresh_ids s s' u \<longleftrightarrow> (\<exists>n \<le> accepts u. next_available_id s' = next_available_id s + of_nat n
     \<and> (unat (next_available_id s) + n < 2 ^ 64 \<longrightarrow> distinct (ids s) \<longrightarrow> (\<forall>k \<in> set (ids s). k < next_available_id s) \<longrightarrow>
          distinct (ids s') \<and> set (ids s') \<subseteq> set (ids s) \<union> {next_available_id s..<next_available_id s'}))"

definition balanced ::
  "('w \<times> sys_event list) server \<times> 'w \<times> sys_event list \<Rightarrow> ('w \<times> sys_event list) server \<times> 'w \<times> sys_event list \<Rightarrow> bool" where
  "balanced = (\<lambda>(s, x) (s', y). tidy s \<longrightarrow> tidy s' \<and>
     (\<exists>u. snd y = snd x @ u \<and> gain u + owned s = loss u + owned s' \<and> fresh_ids s s' u))"

lemma unat_add_small:
  assumes "unat (a :: 64 word) + n < 2 ^ 64"
  shows "unat (a + of_nat n) = unat a + n"
proof -
  have "unat (of_nat n :: 64 word) = n" using assms by (simp add: unat_of_nat take_bit_nat_eq_self)
  with assms show ?thesis by (simp add: unat_word_ariths)
qed

lemma fresh_ids_refl: "next_available_id s' = next_available_id s \<Longrightarrow> ids s' = ids s \<Longrightarrow> fresh_ids s s' u"
  by (auto simp: fresh_ids_def intro!: exI [of _ 0])

lemma fresh_ids_trans:
  assumes "fresh_ids s s1 u" and "fresh_ids s1 s2 v"
  shows "fresh_ids s s2 (u @ v)"
proof -
  let ?N = next_available_id
  obtain n where n: "n \<le> accepts u" "?N s1 = ?N s + of_nat n"
    and 1: "unat (?N s) + n < 2 ^ 64 \<longrightarrow> distinct (ids s) \<longrightarrow> (\<forall>k \<in> set (ids s). k < ?N s) \<longrightarrow>
      distinct (ids s1) \<and> set (ids s1) \<subseteq> set (ids s) \<union> {?N s..<?N s1}"
    using assms(1) unfolding fresh_ids_def by blast
  obtain m where m: "m \<le> accepts v" "?N s2 = ?N s1 + of_nat m"
    and 2: "unat (?N s1) + m < 2 ^ 64 \<longrightarrow> distinct (ids s1) \<longrightarrow> (\<forall>k \<in> set (ids s1). k < ?N s1) \<longrightarrow>
      distinct (ids s2) \<and> set (ids s2) \<subseteq> set (ids s1) \<union> {?N s1..<?N s2}"
    using assms(2) unfolding fresh_ids_def by blast
  have "distinct (ids s2) \<and> set (ids s2) \<subseteq> set (ids s) \<union> {?N s..<?N s2}"
    if small: "unat (?N s) + (n + m) < 2 ^ 64" and d: "distinct (ids s)" and b: "\<forall>k \<in> set (ids s). k < ?N s"
  proof -
    have u1: "unat (?N s1) = unat (?N s) + n" using unat_add_small [of "?N s" n] small n(2) by simp
    then have u2: "unat (?N s2) = unat (?N s) + n + m" using unat_add_small [of "?N s1" m] small m(2) by simp
    have le: "?N s \<le> ?N s1" "?N s1 \<le> ?N s2" using u1 u2 by (simp_all add: word_le_nat_alt)
    have s1: "distinct (ids s1)" "set (ids s1) \<subseteq> set (ids s) \<union> {?N s..<?N s1}" using 1 small d b by auto
    then have "\<forall>k \<in> set (ids s1). k < ?N s1" using b le(1) by fastforce
    with 2 small u1 s1(1) have "distinct (ids s2)" "set (ids s2) \<subseteq> set (ids s1) \<union> {?N s1..<?N s2}" by auto
    with s1(2) le show ?thesis by fastforce
  qed
  then show ?thesis
    unfolding fresh_ids_def using n m by (intro exI [of _ "n + m"]) (simp add: add.assoc)
qed

lemma balanced_refl [simp]: "balanced c c"
  by (auto simp: balanced_def gain_def loss_def fresh_ids_refl intro!: exI [of _ "[]"])

lemma balanced_untidy: "\<not> tidy s \<Longrightarrow> balanced (s, x) c"
  by (auto simp: balanced_def)

lemma balanced_trans:
  assumes "balanced c1 c2" and "balanced c2 c3"
  shows "balanced c1 c3"
proof -
  obtain s1 x1 s2 x2 s3 x3 where c: "c1 = (s1, x1)" "c2 = (s2, x2)" "c3 = (s3, x3)" by (metis surj_pair)
  have "tidy s3 \<and> (\<exists>u. snd x3 = snd x1 @ u \<and> gain u + owned s1 = loss u + owned s3 \<and> fresh_ids s1 s3 u)"
    if t: "tidy s1"
  proof -
    obtain u where u: "tidy s2" "snd x2 = snd x1 @ u" "gain u + owned s1 = loss u + owned s2" "fresh_ids s1 s2 u"
      using assms(1) t by (auto simp: balanced_def c)
    obtain v where v: "tidy s3" "snd x3 = snd x2 @ v" "gain v + owned s2 = loss v + owned s3" "fresh_ids s2 s3 v"
      using assms(2) u(1) by (auto simp: balanced_def c)
    have "gain (u @ v) + owned s1 = gain v + (gain u + owned s1)" by (simp add: add_ac)
    also have "\<dots> = loss u + (gain v + owned s2)" unfolding u(3) by (simp add: add_ac)
    also have "\<dots> = loss (u @ v) + owned s3" unfolding v(3) by (simp add: add_ac)
    finally have "gain (u @ v) + owned s1 = loss (u @ v) + owned s3" .
    with u v fresh_ids_trans [OF u(4) v(4)] show ?thesis by (intro conjI exI [of _ "u @ v"]) simp_all
  qed
  then show ?thesis by (auto simp: balanced_def c)
qed

text \<open>Steps that move no socket and no identifier.\<close>

definition same_books :: "'w server \<Rightarrow> 'w server \<Rightarrow> bool" where
  "same_books s s' \<longleftrightarrow> srv_acceptor s' = srv_acceptor s \<and> next_available_id s' = next_available_id s
     \<and> srv_on_data s' = srv_on_data s \<and> srv_on_connect s' = srv_on_connect s \<and> srv_on_disconnect s' = srv_on_disconnect s
     \<and> None \<notin> set (srv_clients s') \<and> socks s' = socks s \<and> ids s' = ids s"

lemma balanced_quiet:
  assumes "None \<notin> set (srv_clients s) \<Longrightarrow> same_books s s'" and "quiet x y"
  shows "balanced (s, x) (s', y)"
  using assms by (auto simp: balanced_def same_books_def tidy_def quiet_def gain_def loss_def owned_def handlers_keep_def fresh_ids_refl)

lemma same_books_frame:
  assumes "api_frame s s'" and "srv_acceptor s' = srv_acceptor s"
  shows "same_books s s'"
proof -
  have "socks s' = socks s"
    using arg_cong [OF api_frame_map(3) [OF assms(1)], of "map conn_socket"] by (simp add: socks_def comp_def)
  with assms api_frame_map(2) [OF assms(1)] show ?thesis by (simp add: same_books_def api_frame_def ids_def)
qed

lemma same_books_invoke:
  assumes "None \<notin> set (srv_clients s)" and "invoke E h s w = Some (Inr (s', w'))"
  shows "same_books s s'"
proof (rule same_books_frame)
  show "api_frame s s'" by (rule invoke_frame [OF assms])
  have "None \<notin> set (srv_clients s') \<and> srv_acceptor s' = srv_acceptor s \<and> srv_thread s' = srv_thread s"
    using assms by (intro frame_net.invoke_inv [OF _ _ assms(2)]) (simp_all add: list_all_iff)
  then show "srv_acceptor s' = srv_acceptor s" by simp
qed

lemma balanced_invoke:
  assumes "invoke (traced E) h s x = Some (Inr (s', y))" and "tidy s \<Longrightarrow> \<forall>f. h = Some f \<longrightarrow> quiet x (snd (f x))"
  shows "balanced (s, x) (s', y)"
proof (cases "tidy s")
  case True
  then have "quiet x y" using logs.invoke_K [OF assms(1)] assms(2) by blast
  with True same_books_invoke [OF _ assms(1)] show ?thesis by (intro balanced_quiet) (simp_all add: tidy_def)
qed (simp add: balanced_def)

lemma same_books_mark:
  assumes "None \<notin> set (srv_clients s)" and "i < length (srv_clients s)" and "srv_clients s ! i = Some c"
  shows "same_books s (mark i c s)"
  using api_frame_mark [OF api_frame_refl [OF assms(1)] assms(2,3)] by (rule same_books_frame) (simp add: mark_def)

lemma same_books_remove:
  assumes "None \<notin> set (srv_clients s)" and "remove_client k s = Inr s'"
  shows "same_books s s'"
proof -
  consider "s' = s" | i c where "i < length (srv_clients s)" "srv_clients s ! i = Some c" "s' = mark i c s"
    using assms(2) by (auto simp: remove_client_def bind_simps mark_def split: option.splits dest!: by_id.found)
  then show ?thesis
    using same_books_mark [OF assms(1)] assms(1) by cases (auto simp: same_books_def)
qed

section \<open>Accepting\<close>

lemma accept_ec_log:
  assumes "accept_ec (traced E) a ec (w, t) = Inr (conn, ec', y)"
  shows "\<exists>w' u. y = (w', t @ u) \<and> opened u = [] \<and> closed u = [] \<and> (ec_bool ec' \<or> accepts u = 1)
    \<and> sockets (received u) = sockets [conn_socket conn]"
proof (cases "is_open a")
  case False
  with assms show ?thesis by (auto simp: accept_ec_def ec_bool_def connection_new_def)
next
  case True
  obtain r ad n w1 where ac: "sys_accept E (acc_socket a) w = ((r, ad, n), w1)" by (metis prod.exhaust)
  show ?thesis
  proof (cases "r = -1")
    case minus: True
    with assms ac True show ?thesis
      by (auto simp: accept_ec_def traced_simps connection_new_def)
  next
    case False
    then obtain re where fs: "from_native_socket (traced E) r re (w1, t @ [Ev_accept (acc_socket a) r]) = Inr (conn, y)"
      using assms ac True by (auto simp: accept_ec_def traced_simps bind_simps)
    then obtain e where "get_endpoint (traced E) r True (w1, t @ [Ev_accept (acc_socket a) r]) = Inr (e, y)"
      by (auto simp: from_native_socket_def get_local_endpoint_def bind_simps)
    with get_endpoint_traced [of E r True w1 _ e "fst y" "snd y"]
    have "snd y = t @ [Ev_accept (acc_socket a) r, Ev_getsockname r, Ev_getsockopt r SOL_SOCKET SO_PROTOCOL]" by simp
    with False from_native_socket_fd [OF fs] show ?thesis
      by (cases y) auto
  qed
qed

lemma connection_destroy_traced:
  "\<exists>w' u. connection_destroy (traced E) c (w, t) = (w', t @ u) \<and> opened u = [] \<and> received u = [] \<and> accepts u = 0
     \<and> closed u = filter (\<lambda>fd. fd \<noteq> 0) [conn_socket c]"
  using disconnect_traced [of c E w t] by (auto simp: connection_destroy_def is_connected_def)

lemma next_fresh: "unat (a :: 64 word) + 1 < 2 ^ 64 \<Longrightarrow> a < a + 1"
  using unat_add_small [of a 1] by (simp add: word_less_nat_alt)

lemma fresh_ids_add:
  assumes "accepts u = 1"
  shows "fresh_ids s (add_client conn ec s) u"
proof -
  let ?N = "next_available_id s"
  have "distinct (ids s @ [?N]) \<and> set (ids s @ [?N]) \<subseteq> set (ids s) \<union> {?N..<?N + 1}"
    if "unat ?N + 1 < 2 ^ 64" "distinct (ids s)" "\<forall>k \<in> set (ids s). k < ?N"
    using that next_fresh [OF that(1)] by auto
  then show ?thesis
    using assms by (auto simp: fresh_ids_def ids_def add_client_def intro!: exI [of _ 1])
qed

lemma accept_client_balanced:
  assumes "accept_client (traced E) s x = Some (Inr (s', y))"
  shows "balanced (s, x) (s', y)"
proof -
  obtain w t where x: "x = (w, t)" by (cases x)
  obtain conn ec y1 where ac: "accept_ec (traced E) (srv_acceptor s) (srv_ec s) (w, t) = Inr (conn, ec, y1)"
    using assms x by (auto simp: accept_client_def bind_simps Let_def)
  then obtain w1 u where y1: "y1 = (w1, t @ u)" and u: "opened u = []" "closed u = []" "ec_bool ec \<or> accepts u = 1"
    "sockets (received u) = sockets [conn_socket conn]" using accept_ec_log [OF ac] by blast
  show ?thesis
  proof (cases "ec_bool ec")
    case True
    then have s': "s' = s\<lparr>srv_ec := ec\<rparr>" "y = connection_destroy (traced E) conn y1"
      using accept_client_fails [OF ac] assms x by simp_all
    obtain w2 v where "y = (w2, (t @ u) @ v)" "opened v = []" "received v = []" "closed v = filter (\<lambda>fd. fd \<noteq> 0) [conn_socket conn]"
      using connection_destroy_traced [of E conn w1 "t @ u"] s'(2) y1 by auto
    then show ?thesis
      using u s'(1) x by (auto simp: balanced_def tidy_def handlers_keep_def gain_def loss_def owned_def socks_def ids_def
          intro!: exI [of _ "u @ v"] fresh_ids_refl)
  next
    case False
    have "balanced (s, w, t) (add_client conn ec s, y1)"
      using u False y1 fresh_ids_add [of u s conn ec]
      by (auto simp: balanced_def tidy_def handlers_keep_def gain_def loss_def owned_def socks_def add_client_def)
    moreover have "balanced (add_client conn ec s, y1) (s', y)"
      using assms unfolding x accept_client_succeeds [OF ac False]
      by (rule balanced_invoke) (auto simp: add_client_def dest: tidy_handlers(2))
    ultimately show ?thesis unfolding x by (rule balanced_trans)
  qed
qed

lemma has_pending_connection_quiet: "has_pending_connection (traced E) a x = (b, y) \<Longrightarrow> quiet x y"
  by (cases x) (auto simp: has_pending_connection_def poll_socket_def traced_simps quiet_def Let_def split: prod.splits)

lemma same_books_refl: "None \<notin> set (srv_clients s) \<Longrightarrow> same_books s s"
  by (simp add: same_books_def)

lemma handle_incoming_connections_balanced:
  assumes "handle_incoming_connections (traced E) s x = Some (Inr (s', y))"
  shows "balanced (s, x) (s', y)"
proof -
  let ?P = "\<lambda>E' s x r. E' = traced E \<longrightarrow> (\<forall>s' y. r = Inr (s', y) \<longrightarrow> balanced (s, x) (s', y))"
  have "?P (traced E) s x r" if "handle_incoming_connections (traced E) s x = Some r" for r
    using that
  proof (rule handle_incoming_connections.raw_induct [where P = ?P, rotated], goal_cases)
    case (1 rec E' s x r)
    obtain b x1 where p: "has_pending_connection E' (srv_acceptor s) x = (b, x1)"
      by (cases "has_pending_connection E' (srv_acceptor s) x") blast
    have q: "E' = traced E \<Longrightarrow> balanced (s, x) (s, x1)"
      using has_pending_connection_quiet [of E "srv_acceptor s" x b x1] p same_books_refl [of s] by (auto intro: balanced_quiet)
    show ?case
    proof (intro impI allI)
      fix s' y
      assume E': "E' = traced E" and r: "r = Inr (s', y)"
      show "balanced (s, x) (s', y)"
      proof (cases "srv_running s \<and> b")
        case True
        then obtain s1 x2 where "accept_client E' s x1 = Some (Inr (s1, x2))" "rec E' s1 x2 = Some (Inr (s', y))"
          using 1(2) p r by (auto simp: bind_simps)
        then have "balanced (s, x1) (s1, x2)" "balanced (s1, x2) (s', y)"
          using 1(1) E' accept_client_balanced [of E s x1] by blast+
        with q [OF E'] show ?thesis by (blast intro: balanced_trans)
      qed (use 1(2) p r q [OF E'] in \<open>auto split: if_splits\<close>)
    qed
  qed
  with assms show ?thesis by blast
qed

section \<open>Events\<close>

lemma sockets_update:
  "i < length xs \<Longrightarrow> sockets xs = sockets [xs ! i] + sockets (xs[i := 0])"
  by (induction xs arbitrary: i) (auto split: nat.splits)

lemma receive_max_log:
  assumes "receive_max_ec (traced E) c ec fl (w, t) = (d, ec', conn, y)"
  shows "\<exists>w' u. y = (w', t @ u) \<and> opened u = [] \<and> received u = [] \<and> accepts u = 0
    \<and> ((conn = c \<and> closed u = []) \<or> (conn = connection_new \<and> closed u = [conn_socket c] \<and> conn_socket c \<noteq> 0))"
proof (cases "is_connected c")
  case True
  define fl' where "fl' = (if bm_and E fl (rf_bits rf_peek) \<noteq> 0 then MSG_PEEK else 0)"
  obtain r bs w1 where rc: "sys_recv E (conn_socket c) max_buffer_size fl' w = ((r, bs), w1)" by (metis prod.exhaust)
  let ?ev = "Ev_recv (conn_socket c) max_buffer_size fl' r"
  have sock: "conn_socket c \<noteq> 0" using True by (simp add: is_connected_def)
  then obtain w2 where dc: "disconnect (traced E) c (w1, t @ [?ev]) =
      (connection_new, w2, t @ [?ev, Ev_shutdown (conn_socket c) SHUT_RDWR, Ev_close (conn_socket c)])"
    using disconnect_traced [of c E w1 "t @ [?ev]"] by auto
  have "snd (snd (receive_max_ec (traced E) c ec fl (w, t))) =
    (if int_of_ssize r = 0
     then (connection_new, w2, t @ [?ev, Ev_shutdown (conn_socket c) SHUT_RDWR, Ev_close (conn_socket c)])
     else (c, w1, t @ [?ev]))"
    using True rc dc unfolding fl'_def
    by (cases "bm_and E fl (rf_bits rf_peek) = 0")
      (simp_all add: receive_max_ec_def receive_ec_def traced_simps(2,15) Let_def max_buffer_size_def)
  with assms sock show ?thesis by (auto split: if_splits)
qed (use assms in \<open>auto simp: receive_max_ec_def receive_ec_def\<close>)

text \<open>Replacing the connection of a client by a released one, with its socket closed.\<close>

lemma balanced_conn:
  assumes "i < length (srv_clients s)" and "srv_clients s ! i = Some c" and "y = (w', t @ u)"
    and "opened u = []" and "received u = []"
    and "(conn = ci_conn c \<and> closed u = []) \<or> (conn = connection_new \<and> sockets (closed u) = sockets [conn_socket (ci_conn c)])"
  shows "balanced (s, w, t) (s\<lparr>srv_ec := ec, srv_poll := g, srv_clients := (srv_clients s)[i := Some (c\<lparr>ci_conn := conn\<rparr>)]\<rparr>, y)"
proof (cases "tidy s")
  case True
  let ?s = "s\<lparr>srv_ec := ec, srv_poll := g, srv_clients := (srv_clients s)[i := Some (c\<lparr>ci_conn := conn\<rparr>)]\<rparr>"
  have n: "None \<notin> set (srv_clients s)" using True by (simp add: tidy_def)
  have i: "i < length (socks s)" "socks s ! i = conn_socket (ci_conn c)"
    using nth_infos [OF n assms(1)] assms(1,2) n by (simp_all add: socks_def length_infos)
  have "socks ?s = (socks s)[i := conn_socket conn]" "ids ?s = ids s"
    using ids_update [OF n assms(1,2), of "c\<lparr>ci_conn := conn\<rparr>"] assms(1) n
    by (simp_all add: socks_def ids_def infos_update map_update)
  moreover have "conn = ci_conn c \<Longrightarrow> (socks s)[i := conn_socket conn] = socks s" using i by (metis list_update_id)
  ultimately have "gain u + owned s = loss u + owned ?s" "fresh_ids s ?s u"
    using assms(4-6) sockets_update [OF i(1)] i(2)
    by (auto simp: gain_def loss_def owned_def connection_new_def intro!: fresh_ids_refl)
  then show ?thesis
    using True n assms(3) by (auto simp: balanced_def tidy_def handlers_keep_def not_null_update)
qed (simp add: balanced_def)

lemma balanced_receive:
  assumes "client_info_from_native_socket s fd = Inr (Some (i, c))"
    and "receive_max_ec (traced E) (ci_conn c) (srv_ec s) fl x = (d, ec, conn, y)"
  shows "balanced (s, x) (s\<lparr>srv_ec := ec, srv_clients := (srv_clients s)[i := Some (c\<lparr>ci_conn := conn\<rparr>)]\<rparr>, y)"
proof -
  obtain w t where x: "x = (w, t)" by (cases x)
  obtain w' u where "y = (w', t @ u)" "opened u = []" "received u = []"
    "(conn = ci_conn c \<and> closed u = []) \<or> (conn = connection_new \<and> sockets (closed u) = sockets [conn_socket (ci_conn c)])"
    using receive_max_log [of E "ci_conn c" "srv_ec s" fl w t] assms(2) x by fastforce
  from balanced_conn [OF _ _ this, where s = s and i = i and w = w and ec = ec and g = "srv_poll s"]
    by_fd.found [OF assms(1)] x show ?thesis by simp
qed

lemma handle_event_balanced:
  assumes "handle_event (traced E) ev s x = Some (Inr (s', y))"
  shows "balanced (s, x) (s', y)"
  using assms
proof (cases rule: handle_event_cases)
  case ignored
  then show ?thesis by simp
next
  case (hung_up c)
  then show ?thesis by (intro balanced_quiet) (auto intro: same_books_remove)
next
  case (failed i c d ec conn)
  have "balanced (s\<lparr>srv_ec := ec, srv_clients := (srv_clients s)[i := Some (c\<lparr>ci_conn := conn\<rparr>)]\<rparr>, y) (s', y)"
    using same_books_remove [OF _ failed(3)] by (intro balanced_quiet) auto
  with balanced_receive [OF failed(1,2)] show ?thesis by (rule balanced_trans)
next
  case (data i c d ec conn x1)
  have "balanced (s\<lparr>srv_ec := ec, srv_clients := (srv_clients s)[i := Some (c\<lparr>ci_conn := conn\<rparr>)]\<rparr>, x1) (s', y)"
    using data(3) by (rule balanced_invoke) (auto dest: tidy_handlers(1))
  with balanced_receive [OF data(1,2)] show ?thesis by (rule balanced_trans)
qed

lemma handle_events_balanced: "handle_events (traced E) evs s x = Some (Inr (s', y)) \<Longrightarrow> balanced (s, x) (s', y)"
proof (induction evs arbitrary: s x)
  case (Cons ev evs)
  show ?case
  proof (cases "srv_running s")
    case True
    then obtain s1 x1 where "handle_event (traced E) ev s x = Some (Inr (s1, x1))"
      "handle_events (traced E) evs s1 x1 = Some (Inr (s', y))" using Cons.prems by (auto simp: bind_simps)
    with Cons.IH handle_event_balanced balanced_trans show ?thesis by blast
  qed (use Cons.prems in simp)
qed simp

lemma handle_incoming_messages_balanced:
  assumes "handle_incoming_messages (traced E) s x = Some (Inr (s', y))"
  shows "balanced (s, x) (s', y)"
proof -
  obtain evs g x1 where p: "pg_poll (traced E) (srv_poll s) 0 x = (evs, g, x1)" by (metis prod.exhaust)
  then have "quiet x x1"
    by (cases x) (auto simp: pg_poll_def traced_simps quiet_def Let_def split: prod.splits)
  then have "balanced (s, x) (s\<lparr>srv_poll := g\<rparr>, x1)"
    by (intro balanced_quiet) (simp_all add: same_books_def socks_def ids_def)
  moreover have "balanced (s\<lparr>srv_poll := g\<rparr>, x1) (s', y)"
    using assms p handle_events_balanced by (simp add: handle_incoming_messages_def)
  ultimately show ?thesis by (rule balanced_trans)
qed

section \<open>Removal\<close>

lemma disconnect_log:
  "\<exists>w' u. disconnect (traced E) c (w, t) = (if conn_socket c = 0 then c else connection_new, w', t @ u)
    \<and> opened u = [] \<and> received u = [] \<and> closed u = filter (\<lambda>fd. fd \<noteq> 0) [conn_socket c]"
  using disconnect_traced [of c E w t] by (cases "conn_socket c = 0") (auto simp: conn_owner.release_idle)

lemma disconnect_loop_balanced:
  "disconnect_loop (traced E) its s x = Some (Inr (s', y)) \<Longrightarrow> balanced (s, x) (s', y)"
proof (induction its arbitrary: s x)
  case (Cons it its)
  then obtain c where it: "it < length (srv_clients s)" "srv_clients s ! it = Some c"
    by (auto split: if_splits option.splits)
  obtain w t where x: "x = (w, t)" by (cases x)
  obtain conn w1 u where d: "disconnect (traced E) (ci_conn c) x = (conn, w1, t @ u)"
    and u: "opened u = []" "received u = []"
    and c: "(conn = ci_conn c \<and> closed u = []) \<or> (conn = connection_new \<and> sockets (closed u) = sockets [conn_socket (ci_conn c)])"
    using disconnect_log [of E "ci_conn c" w t] x by (cases "conn_socket (ci_conn c) = 0") auto
  let ?s = "s\<lparr>srv_poll := remove_socket (srv_poll s) (ci_fd c),
             srv_clients := (srv_clients s)[it := Some (c\<lparr>ci_conn := conn\<rparr>)]\<rparr>"
  obtain s2 x2 where inv: "invoke (traced E) (map_option (\<lambda>h. h (ci_id c)) (srv_on_disconnect s)) ?s (w1, t @ u) = Some (Inr (s2, x2))"
    and rest: "disconnect_loop (traced E) its s2 x2 = Some (Inr (s', y))"
    using Cons.prems it d by (auto simp: bind_simps Let_def)
  have "balanced (s, x) (?s, w1, t @ u)"
    using balanced_conn [OF it refl u c, where w = w and ec = "srv_ec s"] x by simp
  moreover have "balanced (?s, w1, t @ u) (s2, x2)"
    using inv by (rule balanced_invoke) (auto dest: tidy_handlers(3))
  ultimately show ?case using Cons.IH [OF rest] by (blast intro: balanced_trans)
qed simp

lemma destroy_clients_traced:
  "\<exists>w' u. foldl (\<lambda>w p. destroy_client (traced E) p w) (w, t) ps = (w', t @ u) \<and> opened u = [] \<and> received u = []
     \<and> closed u = filter (\<lambda>fd. fd \<noteq> 0) (map (\<lambda>c. conn_socket (ci_conn c)) (infos ps))"
proof (induction ps arbitrary: w t)
  case (Cons p ps)
  show ?case
  proof (cases p)
    case None
    with Cons.IH [of w t] show ?thesis by (simp add: destroy_client_def)
  next
    case (Some c)
    obtain w1 u1 where 1: "connection_destroy (traced E) (ci_conn c) (w, t) = (w1, t @ u1)" "opened u1 = []" "received u1 = []"
      "closed u1 = filter (\<lambda>fd. fd \<noteq> 0) [conn_socket (ci_conn c)]"
      using connection_destroy_traced [of E "ci_conn c" w t] by blast
    obtain w2 u2 where 2: "foldl (\<lambda>w p. destroy_client (traced E) p w) (w1, t @ u1) ps = (w2, (t @ u1) @ u2)"
      "opened u2 = []" "received u2 = []"
      "closed u2 = filter (\<lambda>fd. fd \<noteq> 0) (map (\<lambda>c. conn_socket (ci_conn c)) (infos ps))"
      using Cons.IH [of w1 "t @ u1"] by blast
    show ?thesis
      using 1 2 Some by (intro exI [of _ w2] exI [of _ "u1 @ u2"]) (simp add: destroy_client_def)
  qed
qed simp

lemma balanced_erase:
  "balanced (s, x) (s\<lparr>srv_clients := take r (srv_clients s)\<rparr>, foldl (\<lambda>w p. destroy_client (traced E) p w) x (drop r (srv_clients s)))"
proof (cases "tidy s")
  case True
  let ?s = "s\<lparr>srv_clients := take r (srv_clients s)\<rparr>"
  obtain w t where x: "x = (w, t)" by (cases x)
  have n: "None \<notin> set (srv_clients s)" "None \<notin> set (take r (srv_clients s))"
    using True by (auto simp: tidy_def dest: in_set_takeD)
  have parts: "infos (srv_clients s) = infos (take r (srv_clients s)) @ infos (drop r (srv_clients s))"
    by (metis append_take_drop_id infos_append)
  obtain w' u where u: "foldl (\<lambda>w p. destroy_client (traced E) p w) x (drop r (srv_clients s)) = (w', t @ u)"
    "opened u = []" "received u = []"
    "closed u = filter (\<lambda>fd. fd \<noteq> 0) (map (\<lambda>c. conn_socket (ci_conn c)) (infos (drop r (srv_clients s))))"
    using destroy_clients_traced [of E w t "drop r (srv_clients s)"] x by blast
  have "gain u + owned s = loss u + owned ?s"
    using u by (simp add: gain_def loss_def owned_def socks_def parts)
  moreover have "fresh_ids s ?s u"
    unfolding fresh_ids_def ids_def parts by (intro exI [of _ 0]) auto
  ultimately show ?thesis
    using True n(2) u(1) x by (auto simp: balanced_def tidy_def handlers_keep_def)
qed (simp add: balanced_def)

lemma handle_disconnected_clients_balanced:
  assumes "handle_disconnected_clients (traced E) s x = Some (Inr (s', y))"
  shows "balanced (s, x) (s', y)"
proof (cases "tidy s \<and> srv_has_disconnected s")
  case True
  then obtain qs r x1 s2 x2 where rm: "remove_if_disconnected (traced E) (srv_clients s) x = Inr (qs, r, x1)"
    and loop: "disconnect_loop (traced E) [r..<length qs] (s\<lparr>srv_clients := qs\<rparr>) x1 = Some (Inr (s2, x2))"
    and s': "s' = s2\<lparr>srv_clients := take r (srv_clients s2)\<rparr>"
      "y = foldl (\<lambda>w p. destroy_client (traced E) p w) x2 (drop r (srv_clients s2))"
    using assms by (auto simp: handle_disconnected_clients_def bind_simps Let_def)
  have "\<not> (r \<le> j \<and> j < length qs \<and> qs ! j = None)" for j
    using loop disconnect_loop_null [of j "[r..<length qs]" "s\<lparr>srv_clients := qs\<rparr>" "traced E" x1 s2 x2] by auto
  moreover have "None \<notin> set (srv_clients s)" using True by (simp add: tidy_def)
  ultimately have "qs = srv_clients s" "x1 = x" using remove_if_unchanged_or_null [OF _ rm] by blast+
  with loop have "balanced (s, x) (s2, x2)" by (simp add: disconnect_loop_balanced)
  then show ?thesis unfolding s' by (rule balanced_trans) (rule balanced_erase)
next
  case False
  then consider "\<not> tidy s" | "s' = s" "y = x" using assms by (auto simp: handle_disconnected_clients_def)
  then show ?thesis by cases (simp_all add: balanced_untidy)
qed

section \<open>The network thread\<close>

lemma tick_balanced:
  assumes "tick (traced E) s x = Some (Inr (s', y))"
  shows "balanced (s, x) (s', y)"
proof -
  obtain s1 x1 s2 x2 where "handle_incoming_connections (traced E) s x = Some (Inr (s1, x1))"
    "handle_incoming_messages (traced E) s1 x1 = Some (Inr (s2, x2))"
    "handle_disconnected_clients (traced E) s2 x2 = Some (Inr (s', y))"
    using assms by (auto simp: tick_def bind_simps)
  then have "balanced (s, x) (s1, x1)" "balanced (s1, x1) (s2, x2)" "balanced (s2, x2) (s', y)"
    by (blast intro: handle_incoming_connections_balanced handle_incoming_messages_balanced
        handle_disconnected_clients_balanced)+
  then show ?thesis by (blast intro: balanced_trans)
qed

lemma server_loop_balanced:
  assumes "server_loop (traced E) s x = Some (Inr (s', y))"
  shows "balanced (s, x) (s', y)"
proof -
  let ?P = "\<lambda>E' s x r. E' = traced E \<longrightarrow> (\<forall>s' y. r = Inr (s', y) \<longrightarrow> balanced (s, x) (s', y))"
  have "?P (traced E) s x r" if "server_loop (traced E) s x = Some r" for r
    using that
  proof (rule server_loop.raw_induct [where P = ?P, rotated], goal_cases)
    case (1 rec E' s x r)
    show ?case
    proof (cases "srv_running s")
      case True
      show ?thesis
      proof (intro impI allI)
        fix s' y
        assume E': "E' = traced E" and "r = Inr (s', y)"
        then obtain s1 x1 where "tick E' s x = Some (Inr (s1, x1))" "rec E' s1 x1 = Some (Inr (s', y))"
          using 1(2) True by (auto simp: bind_simps)
        then have "balanced (s, x) (s1, x1)" "balanced (s1, x1) (s', y)" using 1(1) E' tick_balanced by blast+
        then show "balanced (s, x) (s', y)" by (rule balanced_trans)
      qed
    qed (use 1(2) in auto)
  qed
  with assms show ?thesis by blast
qed

lemma close_acceptor_log:
  "\<exists>a' w' u. close_acceptor (traced E) a (w, t) = (a', w', t @ u) \<and> acc_socket a' = 0
    \<and> opened u = [] \<and> received u = [] \<and> closed u = filter (\<lambda>fd. fd \<noteq> 0) [acc_socket a]"
  using close_acceptor_traced [of a E w t]
  by (cases "acc_socket a = 0") (auto simp: acc_owner.release_idle acceptor_new_def)

lemma acceptor_destroy_traced:
  "\<exists>w' u. acceptor_destroy (traced E) a (w, t) = (w', t @ u) \<and> opened u = [] \<and> received u = []
    \<and> closed u = filter (\<lambda>fd. fd \<noteq> 0) [acc_socket a]"
  using close_acceptor_log [of E a w t] by (auto simp: acceptor_destroy_def is_open_def)

lemma balanced_close:
  assumes "close_acceptor (traced E) (srv_acceptor s) x = (a, y)"
  shows "balanced (s, x) (s\<lparr>srv_acceptor := a, srv_thread := th\<rparr>, y)"
proof -
  obtain w t where x: "x = (w, t)" by (cases x)
  obtain w' u where "y = (w', t @ u)" "acc_socket a = 0" "opened u = []" "received u = []"
    "closed u = filter (\<lambda>fd. fd \<noteq> 0) [acc_socket (srv_acceptor s)]"
    using close_acceptor_log [of E "srv_acceptor s" w t] assms x by auto
  then show ?thesis
    using x by (auto simp: balanced_def tidy_def handlers_keep_def gain_def loss_def owned_def socks_def ids_def
        intro!: fresh_ids_refl)
qed

lemma members_destroyed:
  "\<exists>w' u. foldl (\<lambda>w p. destroy_client (traced E) p w) (acceptor_destroy (traced E) (srv_acceptor s) (w, t)) (srv_clients s)
      = (w', t @ u) \<and> opened u = [] \<and> received u = []
    \<and> closed u = filter (\<lambda>fd. fd \<noteq> 0) (acc_socket (srv_acceptor s) # socks s)"
proof -
  obtain w1 u1 where 1: "acceptor_destroy (traced E) (srv_acceptor s) (w, t) = (w1, t @ u1)" "opened u1 = []" "received u1 = []"
    "closed u1 = filter (\<lambda>fd. fd \<noteq> 0) [acc_socket (srv_acceptor s)]"
    using acceptor_destroy_traced [of E "srv_acceptor s" w t] by blast
  obtain w2 u2 where 2: "foldl (\<lambda>w p. destroy_client (traced E) p w) (w1, t @ u1) (srv_clients s) = (w2, (t @ u1) @ u2)"
    "opened u2 = []" "received u2 = []" "closed u2 = filter (\<lambda>fd. fd \<noteq> 0) (socks s)"
    using destroy_clients_traced [of E w1 "t @ u1" "srv_clients s"] by (auto simp: socks_def)
  show ?thesis using 1 2 by (intro exI [of _ w2] exI [of _ "u1 @ u2"]) simp
qed

section \<open>Property\<close>


text \<open>On the small kernel: a server whose connect handler stops it accepts one client on descriptor 4 and
  closes it together with its listening socket 3.\<close>

lemma traced_sim_start:
  assumes "srv_ec s = no_error"
  shows "\<exists>a t. acc_socket a = 3 \<and> network_thread_start (traced sim) s (k0\<lparr>k_backlog := n\<rparr>, []) =
    Inr (s\<lparr>srv_running := True, srv_acceptor := a\<rparr>, k0\<lparr>k_backlog := n, k_next := 4, k_open := [3], k_listening := [3]\<rparr>, t) \<and> accepts t = 0"
proof -
  let ?e = "node_endpoint (Addrinfo 6 sim_addr 16 None)" and ?ai = "Addrinfo 6 sim_addr 16 (Some (Addrinfo 6 sim_addr 16 None))"
  have ne: "to_string (unat (srv_port s)) \<noteq> []" by (subst to_string.simps) simp
  have "\<exists>t. resolve_ec (traced sim) any_address (to_string (unat (srv_port s))) no_error (k0\<lparr>k_backlog := n\<rparr>, []) =
      Inr ([?e, ?e], no_error, k0\<lparr>k_backlog := n\<rparr>, t) \<and> accepts t = 0"
    using ne by (simp add: resolve_ec_def getaddrinfo_def traced_simps sim_calls c_str_to_string from_native_address_simps
        sim_addr_def node_endpoint_def)
  then obtain t where r: "resolve_ec (traced sim) any_address (to_string (unat (srv_port s))) no_error (k0\<lparr>k_backlog := n\<rparr>, []) =
      Inr ([?e, ?e], no_error, k0\<lparr>k_backlog := n\<rparr>, t)" "accepts t = 0" by blast
  have "\<exists>a t'. acc_socket a = 3 \<and> open_ec (traced sim) (srv_acceptor s) [?e, ?e] no_error 1 (k0\<lparr>k_backlog := n\<rparr>, t) =
     Inr ((), no_error, a, k0\<lparr>k_backlog := n, k_next := 4, k_open := [3], k_listening := [3]\<rparr>, t') \<and> accepts t' = 0"
    using r(2) by (simp add: open_ec_def try_listen_def traced_simps sim_calls k0_def family_def node_endpoint_def
      sim_addr_def sa_family_def byte_at_def protocol_def get_local_endpoint_def
      get_endpoint_def from_native_address_simps backlog_size_def int_of_ssize_def)
  with r assms show ?thesis
    by (cases s) (auto simp: network_thread_start_def Let_def)
qed

definition stopper :: "(kernel \<times> sys_event list) server" where
  "stopper = (set_client_connect_handler (\<lambda>k w. ([Call_stop], w)) (server_new (traced sim) 5000))\<lparr>srv_thread := Thread_running\<rparr>"

lemma stopper_destroyed:
  assumes "acc_socket a = 3" and "network_thread_start (traced sim) stopper (k0\<lparr>k_backlog := 1\<rparr>, []) =
    Inr (stopper\<lparr>srv_running := True, srv_acceptor := a\<rparr>, k0\<lparr>k_backlog := 1, k_next := 4, k_open := [3], k_listening := [3]\<rparr>, t)"
  shows "\<exists>w t'. server_destroy (traced sim) stopper (k0\<lparr>k_backlog := 1\<rparr>, []) = Some (Inr (w, t'))"
proof -
  have "joinable (srv_thread stopper) \<and> srv_thread stopper \<noteq> Thread_finished"
    by (simp add: stopper_def joinable_def)
  then show ?thesis
    unfolding server_destroy_def network_thread_function_def assms(2)
    by (simp add: assms(1) stopper_def server_loop.simps tick_def handle_incoming_connections.simps has_pending_connection_def
        poll_socket_def sim_calls traced_simps sim_revents_def k0_def ssm_from_revents_def accept_client_def accept_ec_def
        is_open_def from_native_address_simps sim_addr_def from_native_socket_def get_local_endpoint_def
        get_endpoint_def native_socket_def Let_def set_client_connect_handler_def server_new_def invoke_def
        stop_def handle_incoming_messages_def pg_poll_def handle_disconnected_clients_def poll_group_new_def
        add_socket_def write_revents_def enumerate_eq_zip close_acceptor_def close_socket_def destroy_client_def
        connection_destroy_def acceptor_destroy_def disconnect_def is_connected_def)
qed


end
