(* ===== verification/Processes.thy ===== *)
theory Processes
  imports Ledger
begin

text \<open>
  A process with several servers. The counter \<open>next_available_id\<close> of \<open>src/server.cpp\<close> is a variable of
  the file, not a member: all servers of a process take their clients' identifiers from it. Here the
  counter is a field of the process; a step of a server loads it into the server's record and stores it
  back. The steps of all servers and of the threads that use them are interleaved in every possible way.
\<close>

section \<open>Model\<close>

record 'w process =
  pr_next_id :: client_id
  pr_servers :: "(phase \<times> 'w server) list"

definition process_start :: "'w process" where
  "process_start = \<lparr>pr_next_id = 1, pr_servers = []\<rparr>"

text \<open>Constructing a server and installing its handlers, or a step of one of its two threads.\<close>

datatype 'w process_label =
    PL_new "16 word" "client_id \<Rightarrow> buffer \<Rightarrow> 'w \<Rightarrow> api_call list \<times> 'w"
      "client_id \<Rightarrow> 'w \<Rightarrow> api_call list \<times> 'w" "client_id \<Rightarrow> 'w \<Rightarrow> api_call list \<times> 'w"
  | PL_step nat label

definition make_server ::
  "'w env \<Rightarrow> 16 word \<Rightarrow> (client_id \<Rightarrow> buffer \<Rightarrow> 'w \<Rightarrow> api_call list \<times> 'w) \<Rightarrow> (client_id \<Rightarrow> 'w \<Rightarrow> api_call list \<times> 'w) \<Rightarrow>
     (client_id \<Rightarrow> 'w \<Rightarrow> api_call list \<times> 'w) \<Rightarrow> 'w server" where
  "make_server E num on_data on_connect on_disconnect =
     set_client_disconnect_handler on_disconnect (set_client_connect_handler on_connect
       (set_data_receive_handler on_data (server_new E num)))"

inductive process_step :: "'w env \<Rightarrow> 'w process \<times> 'w \<Rightarrow> 'w process_label \<Rightarrow> 'w process \<times> 'w \<Rightarrow> bool" for E where
  new: "process_step E (P, w) (PL_new num f g h)
     (P\<lparr>pr_servers := pr_servers P @ [(Ph_idle, make_server E num f g h)]\<rparr>, w)"
| step: "i < length (pr_servers P) \<Longrightarrow> pr_servers P ! i = (p, s) \<Longrightarrow> list_all (\<lambda>(p, s). alive p) (pr_servers P) \<Longrightarrow>
     sys_step E (p, s\<lparr>next_available_id := pr_next_id P\<rparr>, w) l (p', s', w') \<Longrightarrow>
     process_step E (P, w) (PL_step i l)
       (P\<lparr>pr_next_id := next_available_id s', pr_servers := (pr_servers P)[i := (p', s')]\<rparr>, w')"

section \<open>Steps of one server\<close>

lemma start_grows:
  assumes "network_thread_start (traced E) s (w, t) = Inr (s', w', t')"
  shows "\<exists>u. t' = t @ u"
proof -
  obtain es ec w1 t1 a ec2 where r: "resolve_ec (traced E) any_address (to_string (unat (srv_port s))) (srv_ec s) (w, t) = Inr (es, ec, w1, t1)"
    and o: "open_ec (traced E) (srv_acceptor s) es ec (ac_bits ac_reuse_address) (w1, t1) = Inr ((), ec2, a, w', t')"
    using assms by (auto simp: network_thread_start_def bind_simps Let_def split: if_splits)
  have 1: "\<exists>u. t1 = t @ u"
    using r by (auto simp: resolve_ec_def getaddrinfo_def traced_simps bind_simps Let_def split: prod.splits if_splits option.splits)
  have listen: "\<exists>u. t2 = t1 @ u" if "create_listening_socket (traced E) es n b (w1, t1) = Inr (fd, w2, t2)" for n b fd w2 t2
    using that
  proof (induction es arbitrary: w1 t1)
    case (Cons e es)
    then show ?case
      by (auto simp: bind_simps dest!: try_listen_traced split: option.splits) (metis append.assoc)
  qed simp
  have 2: "\<exists>u. t' = t1 @ u"
  proof -
    consider "t' = t1" | n b fd w2 where "create_listening_socket (traced E) es n b (w1, t1) = Inr (fd, w2, t')"
      | n b fd w2 t2 e where "create_listening_socket (traced E) es n b (w1, t1) = Inr (fd, w2, t2)"
        "get_endpoint (traced E) fd True (w2, t2) = Inr (e, w', t')"
      using o by (auto simp: open_ec_def get_local_endpoint_def bind_simps Let_def split: if_splits)
    then show ?thesis
      by cases (auto dest!: listen get_endpoint_traced)
  qed
  from 1 2 show ?thesis by auto
qed

lemma run_call_balanced:
  assumes "run_call (traced E) a s x = Some (Inr (s', y))"
  shows "balanced (s, x) (s', y)"
proof (rule balanced_quiet)
  assume n: "None \<notin> set (srv_clients s)"
  have "srv_acceptor s' = srv_acceptor s"
    using frame_net.run_call_inv [OF _ _ assms, of "srv_acceptor s" "srv_thread s"] n by simp
  then show "same_books s s'"
    using frame_api.run_call_inv [OF api_frame_refl [OF n] _ assms] by (intro same_books_frame) simp_all
next
  show "quiet x y" by (rule logs.run_call_K [OF assms])
qed

definition extends :: "('w \<times> sys_event list) server \<times> 'w \<times> sys_event list \<Rightarrow> ('w \<times> sys_event list) server \<times> 'w \<times> sys_event list \<Rightarrow> bool" where
  "extends = (\<lambda>(s, x) (s', y). tidy s \<longrightarrow> tidy s' \<and> (\<exists>u. snd y = snd x @ u \<and> fresh_ids s s' u))"

lemma extends_balanced: "balanced c c' \<Longrightarrow> extends c c'"
  by (auto simp: balanced_def extends_def)

lemma extends_start:
  assumes "network_thread_start (traced E) s x = Inr (s', y)"
  shows "extends (s, x) (s', y)"
proof -
  obtain w t w' t' where xy: "x = (w, t)" "y = (w', t')" by (metis surj_pair)
  from start_grows [OF assms [unfolded xy]] obtain u where "t' = t @ u" ..
  moreover obtain a where "s' = s\<lparr>srv_running := True, srv_acceptor := a\<rparr>" using network_thread_start_result [OF assms] by blast
  ultimately show ?thesis
    using xy by (auto simp: extends_def tidy_def handlers_keep_def ids_def intro: fresh_ids_refl)
qed

lemma net_step_extends:
  assumes "net_step (traced E) p s x = Some (Inr (p', s', y))"
  shows "extends (s, x) (s', y)"
proof (cases p)
  case Ph_starting
  with assms show ?thesis by (auto simp: bind_simps intro: extends_start)
next
  case Ph_closing
  then obtain a where "close_acceptor (traced E) (srv_acceptor s) x = (a, y)"
    "s' = s\<lparr>srv_acceptor := a, srv_thread := Thread_finished\<rparr>"
    using assms by (auto split: prod.splits)
  then show ?thesis by (auto intro: extends_balanced balanced_close)
qed (use assms in \<open>auto simp: bind_simps intro!: extends_balanced
      dest: handle_incoming_connections_balanced handle_incoming_messages_balanced handle_disconnected_clients_balanced\<close>)

lemma sys_step_extends:
  assumes "sys_step (traced E) (p, s, x) l (p', s', y)"
  shows "extends (s, x) (s', y)"
  using assms
proof cases
  case run_started
  then show ?thesis
    by (auto simp: run_server_def extends_def tidy_def handlers_keep_def ids_def intro!: fresh_ids_refl split: if_splits)
next
  case (user a)
  then show ?thesis by (auto intro: extends_balanced run_call_balanced)
next
  case net
  then show ?thesis by (auto intro: net_step_extends)
qed (auto simp: run_server_def intro!: extends_balanced)

section \<open>All servers\<close>

definition all_ids :: "'w process \<Rightarrow> client_id list" where
  "all_ids P = concat (map (\<lambda>(p, s). ids s) (pr_servers P))"

definition ids_unique :: "'w process \<Rightarrow> bool" where
  "ids_unique P \<longleftrightarrow> distinct (all_ids P) \<and> (\<forall>k \<in> set (all_ids P). 1 \<le> k \<and> k < pr_next_id P)"

definition process_inv :: "('w \<times> sys_event list) process \<times> 'w \<times> sys_event list \<Rightarrow> bool" where
  "process_inv = (\<lambda>(P, w, t). list_all (\<lambda>(p, s). tidy s) (pr_servers P) \<and>
     (Suc (accepts t) < 2 ^ 64 \<longrightarrow> ids_unique P \<and> 1 \<le> pr_next_id P \<and> unat (pr_next_id P) \<le> Suc (accepts t)))"

lemma distinct_middle:
  "distinct (as @ ms @ bs) \<Longrightarrow> distinct ys \<Longrightarrow> set ys \<subseteq> set ms \<union> F \<Longrightarrow> F \<inter> set (as @ ms @ bs) = {} \<Longrightarrow>
     distinct (as @ ys @ bs)"
  by auto

lemma distinct_concat_update:
  assumes "distinct (concat xs)" and "i < length xs" and "distinct ys" and "set ys \<subseteq> set (xs ! i) \<union> F"
    and "F \<inter> set (concat xs) = {}"
  shows "distinct (concat (xs[i := ys]))" and "set (concat (xs[i := ys])) \<subseteq> set (concat xs) \<union> F"
proof -
  let ?a = "concat (take i xs)" and ?b = "concat (drop (Suc i) xs)"
  have xs: "concat xs = ?a @ xs ! i @ ?b"
    using assms(2) by (metis append_take_drop_id Cons_nth_drop_Suc concat.simps(2) concat_append)
  have ys: "concat (xs[i := ys]) = ?a @ ys @ ?b" using assms(2) by (simp add: upd_conv_take_nth_drop)
  show "distinct (concat (xs[i := ys]))" using assms(1,3-5) unfolding ys xs by (rule distinct_middle)
  show "set (concat (xs[i := ys])) \<subseteq> set (concat xs) \<union> F" using assms(4) unfolding ys xs by auto
qed

lemma ids_unique_step:
  assumes "ids_unique P" and "i < length (pr_servers P)" and "pr_servers P ! i = (p, s)"
    and "fresh_ids (s\<lparr>next_available_id := pr_next_id P\<rparr>) s' u" and "1 \<le> pr_next_id P"
    and "unat (pr_next_id P) + accepts u < 2 ^ 64"
  shows "ids_unique (P\<lparr>pr_next_id := next_available_id s', pr_servers := (pr_servers P)[i := (p', s')]\<rparr>)
    \<and> 1 \<le> next_available_id s' \<and> unat (next_available_id s') \<le> unat (pr_next_id P) + accepts u"
proof -
  let ?N = "pr_next_id P" and ?N' = "next_available_id s'" and ?xs = "map (\<lambda>(p, s). ids s) (pr_servers P)"
  obtain n where n: "n \<le> accepts u" "?N' = ?N + of_nat n"
    and f: "unat ?N + n < 2 ^ 64 \<longrightarrow> distinct (ids s) \<longrightarrow> (\<forall>k \<in> set (ids s). k < ?N) \<longrightarrow>
      distinct (ids s') \<and> set (ids s') \<subseteq> set (ids s) \<union> {?N..<?N'}"
    using assms(4) by (auto simp: fresh_ids_def ids_def)
  have N': "unat ?N' = unat ?N + n" using unat_add_small [of ?N n] n assms(6) by simp
  then have le: "?N \<le> ?N'" by (simp add: word_le_nat_alt)
  have i: "i < length ?xs" "?xs ! i = ids s" using assms(2,3) by simp_all
  have u: "distinct (concat ?xs)" "\<forall>k \<in> set (concat ?xs). 1 \<le> k \<and> k < ?N"
    using assms(1) by (simp_all add: ids_unique_def all_ids_def)
  have sub: "set (ids s) \<subseteq> set (concat ?xs)" using nth_mem [OF i(1)] i(2) by auto
  have "distinct (ids s)" using u(1) nth_mem [OF i(1)] i(2) by (auto simp: distinct_concat_iff)
  moreover have "\<forall>k \<in> set (ids s). k < ?N" using sub u(2) by blast
  ultimately have s': "distinct (ids s')" "set (ids s') \<subseteq> set (?xs ! i) \<union> {?N..<?N'}"
    using f n(1) assms(6) i(2) by auto
  have "{?N..<?N'} \<inter> set (concat ?xs) = {}" using u(2) by fastforce
  note new = distinct_concat_update [OF u(1) i(1) s' this]
  have "\<forall>k \<in> set (concat (?xs[i := ids s'])). 1 \<le> k \<and> k < ?N'"
    using new(2) u(2) le assms(5) by fastforce
  with new(1) show ?thesis
    using assms(5) le N' n(1) by (auto simp: ids_unique_def all_ids_def map_update)
qed

definition quiet_label :: "('w \<times> sys_event list) process_label \<Rightarrow> bool" where
  "quiet_label l \<longleftrightarrow> (case l of PL_new num f g h \<Rightarrow>
       (\<forall>k d x. quiet x (snd (f k d x))) \<and> (\<forall>k x. quiet x (snd (g k x))) \<and> (\<forall>k x. quiet x (snd (h k x)))
     | PL_step i l \<Rightarrow> True)"

lemma process_step_inv:
  assumes "process_step (traced E) (P, w, t) l (P', w', t')" and "quiet_label l" and "process_inv (P, w, t)"
  shows "process_inv (P', w', t')"
  using assms(1)
proof cases
  case (new num f g h)
  have "tidy (make_server (traced E) num f g h)" "ids (make_server (traced E) num f g h) = []"
    using assms(2) new(1)
    by (simp_all add: quiet_label_def tidy_def handlers_keep_def ids_def make_server_def set_client_disconnect_handler_def
        set_client_connect_handler_def set_data_receive_handler_def server_new_def)
  with new assms(3) show ?thesis by (simp add: process_inv_def ids_unique_def all_ids_def)
next
  case (step i p s l' p' s')
  let ?s = "s\<lparr>next_available_id := pr_next_id P\<rparr>"
  have "tidy s" using assms(3) step(3,4) by (auto simp: process_inv_def list_all_length)
  then have "tidy ?s" by (simp add: tidy_def handlers_keep_def)
  with sys_step_extends [OF step(6)] obtain u where u: "tidy s'" "t' = t @ u" "fresh_ids ?s s' u"
    by (auto simp: extends_def)
  have "list_all (\<lambda>(p, s). tidy s) (pr_servers P')"
    using assms(3) u(1) step(2,3) by (auto simp: process_inv_def list_all_length nth_list_update)
  moreover have "ids_unique P' \<and> 1 \<le> pr_next_id P' \<and> unat (pr_next_id P') \<le> Suc (accepts t')"
    if "Suc (accepts t') < 2 ^ 64"
    using ids_unique_step [OF _ step(3,4) u(3), of p'] assms(3) that u(2) step(2) by (auto simp: process_inv_def)
  ultimately show ?thesis by (simp add: process_inv_def)
qed

interpretation process_kept: kept_by "\<lambda>c l c'. process_step (traced E) c l c' \<and> quiet_label l" process_inv for E :: "'w env"
proof
  fix c c' :: "('w \<times> sys_event list) process \<times> 'w \<times> sys_event list" and l
  assume "process_step (traced E) c l c' \<and> quiet_label l" and "process_inv c"
  then show "process_inv c'" using process_step_inv [of E _ _ _ l] by (cases c; cases c') blast
qed

text \<open>C7: an identifier names one client in the whole process. However the threads of the servers of a
  process and of their users are interleaved, at the granularity of the member functions the network
  threads call, the clients of all servers together have distinct identifiers, each at least 1 and below
  the shared counter, as long as fewer than \<open>2 ^ 64 - 1\<close> calls of \<open>accept\<close> were made.\<close>

theorem process_ids_unique:
  assumes "runs (process_step (traced E)) (process_start, w, []) ls (P, w', t)" and "\<forall>l \<in> set ls. quiet_label l"
    and "Suc (accepts t) < 2 ^ 64"
  shows "distinct (all_ids P) \<and> (\<forall>k \<in> set (all_ids P). 1 \<le> k \<and> k < pr_next_id P)"
proof -
  have "process_inv (process_start, w, [])"
    by (simp add: process_inv_def process_start_def ids_unique_def all_ids_def)
  from process_kept.runs_keep [OF runs_restrict [OF assms(1,2)] this] assms(3) show ?thesis
    by (simp add: process_inv_def ids_unique_def)
qed

text \<open>Two servers on the small kernel, whose connect handlers stop them; the second one accepts a client.\<close>

abbreviation stopping_server :: "(kernel \<times> sys_event list) server" where
  "stopping_server \<equiv> make_server (traced sim) 5000 (\<lambda>k d x. ([], x)) (\<lambda>k x. ([Call_stop], x)) (\<lambda>k x. ([], x))"

lemmas stopping_server_defs = make_server_def set_client_disconnect_handler_def
        set_client_connect_handler_def set_data_receive_handler_def server_new_def

lemma stopping_server_accepts:
  assumes "acc_socket a = 3"
  shows "\<exists>s w u. handle_incoming_connections (traced sim) (stopping_server\<lparr>srv_thread := Thread_running, srv_running := True, srv_acceptor := a\<rparr>)
     (k0\<lparr>k_backlog := 1, k_next := 4, k_open := [3], k_listening := [3]\<rparr>, t) = Some (Inr (s, w, t @ u)) \<and> ids s = [1] \<and> accepts u = 1"
  by (simp add: assms stopping_server_defs handle_incoming_connections.simps has_pending_connection_def
        poll_socket_def sim_calls traced_simps sim_revents_def k0_def ssm_from_revents_def accept_client_def accept_ec_def
        is_open_def from_native_address_simps sim_addr_def from_native_socket_def get_local_endpoint_def
        get_endpoint_def native_socket_def Let_def invoke_def stop_def ids_def)

lemma stopping_server_id: "stopping_server\<lparr>next_available_id := 1\<rparr> = stopping_server"
  by (simp add: stopping_server_defs)

theorem process_ids_unique_witness:
  "\<exists>ls P w t. runs (process_step (traced sim)) (process_start, k0\<lparr>k_backlog := 1\<rparr>, []) ls (P, w, t)
     \<and> length (pr_servers P) = 2 \<and> all_ids P = [1] \<and> 1 < pr_next_id P"
proof -
  let ?S = stopping_server and ?k = "k0\<lparr>k_backlog := 1\<rparr>"
  let ?new = "PL_new 5000 (\<lambda>k d x. ([], x)) (\<lambda>k x. ([Call_stop], x)) (\<lambda>k x. ([], x))"
  let ?P = "\<lambda>n p s. \<lparr>pr_next_id = n, pr_servers = [(Ph_idle, ?S), (p, s)]\<rparr>"
  let ?R = "?S\<lparr>srv_thread := Thread_running\<rparr>"
  have ec: "srv_ec ?R = no_error" by (simp add: stopping_server_defs)
  obtain a t where a: "acc_socket a = 3" "accepts t = 0" and st: "network_thread_start (traced sim) ?R (?k, []) =
      Inr (?R\<lparr>srv_running := True, srv_acceptor := a\<rparr>, ?k\<lparr>k_next := 4, k_open := [3], k_listening := [3]\<rparr>, t)"
    using traced_sim_start [OF ec, of 1] by auto
  let ?T = "?R\<lparr>srv_running := True, srv_acceptor := a\<rparr>" and ?l = "?k\<lparr>k_next := 4, k_open := [3], k_listening := [3]\<rparr>"
  obtain s w u where hic: "handle_incoming_connections (traced sim) ?T (?l, t) = Some (Inr (s, w, t @ u))"
    and s: "ids s = [1]" "accepts u = 1" using stopping_server_accepts [OF a(1), of t] by auto
  have next1: "?R\<lparr>next_available_id := 1\<rparr> = ?R" "?T\<lparr>next_available_id := 1\<rparr> = ?T" by (simp_all add: stopping_server_defs)
  have go: "process_step (traced sim) (?P 1 p x, v) (PL_step 1 l) (?P n p' x', v')"
    if "sys_step (traced sim) (p, x\<lparr>next_available_id := 1\<rparr>, v) l (p', x', v')" "alive p" "next_available_id x' = n"
    for p x v l p' x' v' n
    using process_step.step [of 1 "?P 1 p x" p x "traced sim" v l p' x' v'] that by simp
  have one: "next_available_id ?R = 1" "next_available_id ?T = 1" by (simp_all add: stopping_server_defs)
  have "process_step (traced sim) (process_start, ?k, []) ?new (\<lparr>pr_next_id = 1, pr_servers = [(Ph_idle, ?S)]\<rparr>, ?k, [])"
    "process_step (traced sim) (\<lparr>pr_next_id = 1, pr_servers = [(Ph_idle, ?S)]\<rparr>, ?k, []) ?new (?P 1 Ph_idle ?S, ?k, [])"
    using process_step.new [of "traced sim" process_start] process_step.new [of "traced sim" "\<lparr>pr_next_id = 1, pr_servers = [(Ph_idle, ?S)]\<rparr>"]
    by (simp_all add: process_start_def)
  moreover have "process_step (traced sim) (?P 1 Ph_idle ?S, ?k, []) (PL_step 1 L_run) (?P 1 Ph_starting ?R, ?k, [])"
    by (rule go [OF sys_step.run_started _ one(1)]) (simp_all add: stopping_server_defs run_server_def joinable_def)
  moreover have "process_step (traced sim) (?P 1 Ph_starting ?R, ?k, []) (PL_step 1 L_net) (?P 1 Ph_loop ?T, ?l, t)"
    by (rule go [OF sys_step.net _ one(2)]) (simp_all only: next1 net_step.simps st dbind_Inr prod.case alive.simps)
  moreover have "process_step (traced sim) (?P 1 Ph_loop ?T, ?l, t) (PL_step 1 L_net) (?P 1 Ph_connections ?T, ?l, t)"
    by (rule go [OF sys_step.net _ one(2)]) (simp_all add: next1)
  moreover have "process_step (traced sim) (?P 1 Ph_connections ?T, ?l, t) (PL_step 1 L_net) (?P (next_available_id s) Ph_messages s, w, t @ u)"
    by (rule go [OF sys_step.net _ refl]) (simp_all only: next1 net_step.simps hic dbind_Inr prod.case alive.simps)
  ultimately have run: "runs (process_step (traced sim)) (process_start, ?k, [])
      [?new, ?new, PL_step 1 L_run, PL_step 1 L_net, PL_step 1 L_net, PL_step 1 L_net] (?P (next_available_id s) Ph_messages s, w, t @ u)"
    by (blast intro: runs.intros)
  have all: "all_ids (?P (next_available_id s) Ph_messages s) = [1]"
    using s(1) by (simp add: all_ids_def ids_def stopping_server_defs)
  have "1 < next_available_id s"
    using process_ids_unique [OF run] all s(2) a(2) by (simp add: quiet_label_def)
  with run all show ?thesis by (intro exI conjI) (assumption | simp)+
qed

section \<open>Inside one call\<close>

text \<open>The counter is not protected, and a server gives an identifier back by decrementing it. Here the
  acceptance of a client is split where another thread can come in between: an identifier is taken, then
  the connection is accepted.\<close>

definition take_id :: "'w server \<Rightarrow> client_id \<times> 'w server" where
  "take_id s = (next_available_id s, s\<lparr>next_available_id := next_available_id s + 1\<rparr>)"

definition accept_taken :: "'w env \<Rightarrow> client_id \<Rightarrow> 'w server \<Rightarrow> 'w \<Rightarrow> ('w server \<times> 'w) run" where
  "accept_taken E new_client_id s w =
     dbind (Some (accept_ec E (srv_acceptor s) (srv_ec s) w)) (\<lambda>(conn, ec, w1).
       let s1 = s\<lparr>srv_ec := ec\<rparr>;
           new_client = \<lparr>ci_id = new_client_id, ci_conn = conn, ci_fd = native_socket conn, ci_connected = False\<rparr>
       in if ec_bool ec
          then Some (Inr (s1\<lparr>next_available_id := next_available_id s1 - 1\<rparr>,
                          connection_destroy E (ci_conn new_client) w1))
          else let s2 = s1\<lparr>srv_clients := srv_clients s1 @ [Some (new_client\<lparr>ci_connected := True\<rparr>)],
                          srv_poll := add_socket (srv_poll s1) (ci_fd new_client)\<rparr>
               in invoke E (map_option (\<lambda>h. h new_client_id) (srv_on_connect s2)) s2 w1)"

lemma accept_client_split: "accept_client E s w = (case take_id s of (k, s1) \<Rightarrow> accept_taken E k s1 w)"
  by (simp add: accept_client_def take_id_def accept_taken_def Let_def)

text \<open>C14: two servers of one process can give the same identifier twice. Server \<open>a\<close> takes an identifier; then
  server \<open>b\<close> accepts a client; then the \<open>accept\<close> of \<open>a\<close> fails and \<open>a\<close> decrements the shared counter, which
  takes back the identifier of the client of \<open>b\<close>; the next client of \<open>b\<close> gets it again. Both are in the
  table of \<open>b\<close> with the same identifier, so messages to the second reach the first.\<close>

theorem shared_counter_race:
  assumes "accept_ec E (srv_acceptor b) (srv_ec b) w = Inr (c1, ec1, w1)" and "\<not> ec_bool ec1"
    and "accept_ec E (srv_acceptor a) (srv_ec a) w1 = Inr (c2, ec2, w2)" and "ec_bool ec2"
    and "accept_ec E (srv_acceptor b) ec1 w3 = Inr (c3, ec3, w4)" and "\<not> ec_bool ec3"
    and "srv_on_connect b = Some (\<lambda>k w. ([], w))"
    and "take_id (a\<lparr>next_available_id := n\<rparr>) = (k, a1)"
  shows "\<exists>b1 a2 b2. accept_client E (b\<lparr>next_available_id := next_available_id a1\<rparr>) w = Some (Inr (b1, w1))
    \<and> accept_taken E k (a1\<lparr>next_available_id := next_available_id b1\<rparr>) w1 = Some (Inr (a2, connection_destroy E c2 w2))
    \<and> accept_client E (b1\<lparr>next_available_id := next_available_id a2\<rparr>) w3 = Some (Inr (b2, w4))
    \<and> ids b2 = ids b @ [n + 1, n + 1]"
proof -
  have a1: "a1 = a\<lparr>next_available_id := n + 1\<rparr>" using assms(8) by (auto simp: take_id_def)
  let ?b = "b\<lparr>next_available_id := n + 1\<rparr>"
  have quiet: "invoke E (Some (\<lambda>w. ([], w))) s v = Some (Inr (s, v))" for s v by (simp add: invoke_def)
  let ?b1 = "add_client c1 ec1 ?b" and ?a2 = "a\<lparr>srv_ec := ec2, next_available_id := n + 1\<rparr>"
  have 1: "accept_client E ?b w = Some (Inr (?b1, w1))"
    using accept_client_succeeds [of E ?b w c1 ec1 w1] assms(1,2,7) quiet by simp
  have 2: "accept_taken E k (a\<lparr>next_available_id := next_available_id ?b1\<rparr>) w1 = Some (Inr (?a2, connection_destroy E c2 w2))"
    using assms(3,4) by (simp add: accept_taken_def add_client_def Let_def)
  let ?b' = "?b1\<lparr>next_available_id := n + 1\<rparr>"
  have 3: "accept_client E ?b' w3 = Some (Inr (add_client c3 ec3 ?b', w4))"
    using accept_client_succeeds [of E ?b' w3 c3 ec3 w4] assms(5-7) quiet by (simp add: add_client_def)
  have 4: "ids (add_client c3 ec3 ?b') = ids b @ [n + 1, n + 1]" by (simp add: ids_def add_client_def)
  show ?thesis
    unfolding a1 using 1 2 3 4 by (intro exI [of _ ?b1] exI [of _ ?a2] exI [of _ "add_client c3 ec3 ?b'"]) simp
qed

text \<open>On the small kernel both servers listen; the one waiting connection is taken by \<open>b\<close>, so the \<open>accept\<close> of
  \<open>a\<close> fails; then another client arrives.\<close>

theorem shared_counter_race_witness:
  "\<exists>a1 b1 a2 b2 w1 w2 w4. take_id ((ex_server sim [])\<lparr>next_available_id := 5\<rparr>) = (5, a1)
    \<and> accept_client sim ((ex_server sim [])\<lparr>srv_on_connect := Some (\<lambda>k w. ([], w)), next_available_id := next_available_id a1\<rparr>)
        (k0\<lparr>k_next := 9, k_backlog := 1\<rparr>) = Some (Inr (b1, w1))
    \<and> accept_taken sim 5 (a1\<lparr>next_available_id := next_available_id b1\<rparr>) w1 = Some (Inr (a2, w2))
    \<and> accept_client sim (b1\<lparr>next_available_id := next_available_id a2\<rparr>) (k0\<lparr>k_next := 10, k_backlog := 1\<rparr>) = Some (Inr (b2, w4))
    \<and> ids b2 = [6, 6]"
proof -
  let ?a = "ex_server sim [] :: kernel server" and ?b = "(ex_server sim [] :: kernel server)\<lparr>srv_on_connect := Some (\<lambda>k w. ([], w))\<rparr>"
  let ?k = "k0\<lparr>k_next := 9, k_backlog := 1\<rparr>" and ?k' = "k0\<lparr>k_next := 10, k_backlog := 1\<rparr>"
  have acc: "srv_acceptor ?a = srv_acceptor ?b" "srv_ec ?a = 0" "srv_ec ?b = 0" "is_open (srv_acceptor ?b)"
    by (simp_all add: ex_server_def server_new_def is_open_def no_error_def)
  have ok: "\<exists>c w1. accept_ec sim (srv_acceptor ?b) 0 (k0\<lparr>k_next := i, k_backlog := 1\<rparr>) = Inr (c, 0, w1) \<and> k_backlog w1 = 0 \<and> k_errno w1 = 0"
    if "i \<noteq> -1" for i
    using that acc(4) by (simp add: accept_ec_def sim_calls k0_def from_native_address_simps sim_addr_def from_native_socket_def
        get_local_endpoint_def get_endpoint_def Let_def)
  obtain c1 w1 where 1: "accept_ec sim (srv_acceptor ?b) 0 ?k = Inr (c1, 0, w1)" "k_backlog w1 = 0" using ok [of 9] by auto
  have 2: "accept_ec sim (srv_acceptor ?b) 0 w1 = Inr (connection_new, 11, w1\<lparr>k_errno := 11\<rparr>)"
    using 1(2) acc(4) by (simp add: accept_ec_def sim_calls)
  obtain c3 w4 where 3: "accept_ec sim (srv_acceptor ?b) 0 ?k' = Inr (c3, 0, w4)" using ok [of 10] by auto
  have ids0: "ids ?b = []" by (simp add: ids_def ex_server_def)
  have t: "take_id (?a\<lparr>next_available_id := 5\<rparr>) = (5, ?a\<lparr>next_available_id := 6\<rparr>)" by (simp add: take_id_def)
  have h: "srv_on_connect ?b = Some (\<lambda>k w. ([], w))" by simp
  have z: "\<not> ec_bool 0" "ec_bool 11" by (simp_all add: ec_bool_def)
  from shared_counter_race [of sim ?b ?k c1 0 w1 ?a connection_new 11 _ ?k' c3 0 w4, unfolded acc, OF 1(1) z(1) 2 z(2) 3 z(1) h t]
  show ?thesis unfolding ids0 using t by auto
qed

end
