(* ===== verification/Client_System.thy ===== *)
theory Client_System
  imports Client_Properties Runs
begin

text \<open>
  The client as a system of two threads: the user's thread, which calls \<open>connect\<close>, \<open>disconnect\<close> and
  \<open>send_message\<close> at any time, and the network thread, which works through the phases of
  \<open>client::network_thread_function_\<close>. As for the server, a step is one call of the user's thread or one
  of the calls the network thread makes, and the threads are interleaved in every possible way at this
  granularity; that a step is not disturbed by the other thread is an assumption of the model.
\<close>

section \<open>Model\<close>

datatype client_phase =
    CP_idle
  | CP_starting
  | CP_announce
  | CP_loop
  | CP_messages
  | CP_closing
  | CP_farewell
  | CP_done
  | CP_dead fault

datatype client_label = CL_user client_call | CL_net

type_synonym 'w client_config = "client_phase \<times> 'w client \<times> 'w"

text \<open>The step of the network thread in a phase, \<open>None\<close> if it does not return.\<close>

fun client_step :: "'w env \<Rightarrow> client_phase \<Rightarrow> 'w client \<Rightarrow> 'w \<Rightarrow> (client_phase \<times> 'w client \<times> 'w) run" where
  "client_step E CP_starting c w =
     dbind (Some (client_thread_start E c w)) (\<lambda>(c1, w1). Some (Inr (CP_announce, c1, w1)))"
| "client_step E CP_announce c w =
     dbind (client_invoke E (cl_on_connect c) c w) (\<lambda>(c1, w1). Some (Inr (CP_loop, c1, w1)))"
| "client_step E CP_loop c w = Some (Inr (if cl_running c then CP_messages else CP_closing, c, w))"
| "client_step E CP_messages c w =
     dbind (client_handle_incoming_messages E c w) (\<lambda>(c1, w1). Some (Inr (CP_loop, c1, w1)))"
| "client_step E CP_closing c w =
     (case disconnect E (cl_conn c) w of (conn, w1) \<Rightarrow> Some (Inr (CP_farewell, c\<lparr>cl_conn := conn\<rparr>, w1)))"
| "client_step E CP_farewell c w =
     dbind (client_invoke E (cl_on_disconnect c) c w)
       (\<lambda>(c1, w1). Some (Inr (CP_done, c1\<lparr>cl_thread := Thread_finished\<rparr>, w1)))"
| "client_step E p c w = None"

fun client_alive :: "client_phase \<Rightarrow> bool" where
  "client_alive (CP_dead f) = False"
| "client_alive _ = True"

text \<open>A call of the user's thread may start the network thread: \<open>connect\<close> does, and so does the
  disconnect handler that a failing \<open>send_message\<close> calls, if it calls \<open>connect\<close>.\<close>

fun after_call :: "client_phase \<Rightarrow> 'w client \<Rightarrow> client_phase" where
  "after_call CP_idle c = (if joinable (cl_thread c) then CP_starting else CP_idle)"
| "after_call p c = p"

inductive client_sys_step :: "'w env \<Rightarrow> 'w client_config \<Rightarrow> client_label \<Rightarrow> 'w client_config \<Rightarrow> bool" for E where
  user: "client_run_calls E [a] c w = Some (Inr (c', w')) \<Longrightarrow> client_alive p \<Longrightarrow>
     client_sys_step E (p, c, w) (CL_user a) (after_call p c', c', w')"
| user_fault: "client_run_calls E [a] c w = Some (Inl f) \<Longrightarrow> client_alive p \<Longrightarrow>
     client_sys_step E (p, c, w) (CL_user a) (CP_dead f, c, w)"
| net: "client_step E p c w = Some (Inr cfg) \<Longrightarrow> client_sys_step E (p, c, w) CL_net cfg"
| net_fault: "client_step E p c w = Some (Inl f) \<Longrightarrow> client_sys_step E (p, c, w) CL_net (CP_dead f, c, w)"

abbreviation client_steps :: "'w env \<Rightarrow> 'w client_config \<Rightarrow> client_label list \<Rightarrow> 'w client_config \<Rightarrow> bool" where
  "client_steps E \<equiv> runs (client_sys_step E)"

inductive_cases client_sys_step_netE: "client_sys_step E (p, c, w) CL_net cfg"
inductive_cases client_sys_step_userE: "client_sys_step E (p, c, w) (CL_user a) cfg"

section \<open>The network thread alone\<close>

text \<open>What the sequential thread function still has to do in each phase.\<close>

definition farewell :: "'w env \<Rightarrow> 'w client \<times> 'w \<Rightarrow> ('w client \<times> 'w) run" where
  "farewell E = (\<lambda>(c, w). dbind (client_invoke E (cl_on_disconnect c) c w)
     (\<lambda>(c1, w1). Some (Inr (c1\<lparr>cl_thread := Thread_finished\<rparr>, w1))))"

definition client_close_and_end :: "'w env \<Rightarrow> 'w client \<times> 'w \<Rightarrow> ('w client \<times> 'w) run" where
  "client_close_and_end E = (\<lambda>(c, w). case disconnect E (cl_conn c) w of (conn, w1) \<Rightarrow> farewell E (c\<lparr>cl_conn := conn\<rparr>, w1))"

definition client_loop_and_end :: "'w env \<Rightarrow> 'w client \<times> 'w \<Rightarrow> ('w client \<times> 'w) run" where
  "client_loop_and_end E = (\<lambda>(c, w). dbind (client_loop E c w) (client_close_and_end E))"

fun client_remaining :: "'w env \<Rightarrow> client_phase \<Rightarrow> 'w client \<Rightarrow> 'w \<Rightarrow> ('w client \<times> 'w) run" where
  "client_remaining E CP_starting c w = client_network_thread E c w"
| "client_remaining E CP_announce c w = dbind (client_invoke E (cl_on_connect c) c w) (client_loop_and_end E)"
| "client_remaining E CP_loop c w = client_loop_and_end E (c, w)"
| "client_remaining E CP_messages c w = dbind (client_handle_incoming_messages E c w) (client_loop_and_end E)"
| "client_remaining E CP_closing c w = client_close_and_end E (c, w)"
| "client_remaining E CP_farewell c w = farewell E (c, w)"
| "client_remaining E CP_done c w = Some (Inr (c, w))"
| "client_remaining E CP_idle c w = None"
| "client_remaining E (CP_dead f) c w = Some (Inl f)"

lemmas client_rest_defs = farewell_def client_close_and_end_def client_loop_and_end_def

lemma client_thread_phases:
  "client_network_thread E c w = dbind (Some (client_thread_start E c w)) (\<lambda>(c1, w1).
     dbind (client_invoke E (cl_on_connect c1) c1 w1) (client_loop_and_end E))"
  by (simp add: client_network_thread_def client_rest_defs case_prod_beta' Let_def)

lemma client_loop_and_end_unfold:
  "client_loop_and_end E (c, w) =
     (if cl_running c then client_remaining E CP_messages c w else client_close_and_end E (c, w))"
  by (simp add: client_loop_and_end_def client_loop.simps [of E c w] dbind_assoc case_prod_beta')

lemma client_remaining_step:
  assumes "client_step E p c w = Some (Inr (p', c', w'))"
  shows "client_remaining E p c w = client_remaining E p' c' w'"
proof (cases p)
  case CP_starting
  with assms show ?thesis by (auto simp: client_thread_phases bind_simps)
next
  case CP_loop
  with assms show ?thesis by (auto simp: client_loop_and_end_unfold split: if_splits)
next
  case CP_closing
  with assms show ?thesis by (auto simp: client_close_and_end_def split: prod.splits)
next
  case CP_farewell
  with assms show ?thesis by (auto simp: farewell_def bind_simps)
qed (use assms in \<open>auto simp: bind_simps\<close>)

lemma client_remaining_fault:
  "client_step E p c w = Some (Inl f) \<Longrightarrow> client_remaining E p c w = Some (Inl f)"
  by (cases p) (auto simp: bind_simps client_thread_phases farewell_def split: prod.splits)

interpretation client_phases: phased "client_sys_step E" CL_net "\<lambda>(p, c, w). client_remaining E p c w" for E :: "'w env"
  by unfold_locales (auto elim!: client_sys_step_netE dest: client_remaining_step client_remaining_fault)

text \<open>Conversely, the thread function is a sequence of steps.\<close>

lemma client_net_steps_Cons:
  "client_step E p c w = Some (Inr d) \<Longrightarrow> client_steps E d (replicate n CL_net) d' \<Longrightarrow>
     client_steps E (p, c, w) (replicate (Suc n) CL_net) d'"
  by (rule runs_replicate_Suc [where step = "client_sys_step E"]) (rule client_sys_step.net)

lemma client_loop_steps:
  assumes "client_loop E c w = Some (Inr (c', w'))"
  shows "\<exists>n. client_steps E (CP_loop, c, w) (replicate n CL_net) (CP_closing, c', w')"
proof -
  let ?P = "\<lambda>E c w r. \<forall>c' w'. r = Inr (c', w') \<longrightarrow>
    (\<exists>n. client_steps E (CP_loop, c, w) (replicate n CL_net) (CP_closing, c', w'))"
  have "?P E c w r" if "client_loop E c w = Some r" for r
    using that
  proof (rule client_loop.raw_induct [where P = ?P, rotated])
    fix rec E c and w :: 'a and r
    assume IH: "\<And>E c w r. rec E c w = Some r \<Longrightarrow> ?P E c w r"
      and eq: "(if cl_running c then dbind (client_handle_incoming_messages E c w) (\<lambda>r. rec E (fst r) (snd r))
          else Some (Inr (c, w))) = Some r"
    show "?P E c w r"
    proof (cases "cl_running c")
      case False
      then have "client_step E CP_loop c w = Some (Inr (CP_closing, c, w))" by simp
      from client_net_steps_Cons [OF this, of 0] False eq show ?thesis by (auto intro: exI [of _ "Suc 0"])
    next
      case True
      show ?thesis
      proof (intro allI impI)
        fix c' w'
        assume "r = Inr (c', w')"
        with eq True obtain c1 w1 where h: "client_handle_incoming_messages E c w = Some (Inr (c1, w1))"
          and "rec E c1 w1 = Some (Inr (c', w'))" by (auto simp: bind_simps)
        with IH obtain n where n: "client_steps E (CP_loop, c1, w1) (replicate n CL_net) (CP_closing, c', w')" by blast
        have 1: "client_step E CP_loop c w = Some (Inr (CP_messages, c, w))" using True by simp
        have 2: "client_step E CP_messages c w = Some (Inr (CP_loop, c1, w1))" using h by simp
        show "\<exists>n. client_steps E (CP_loop, c, w) (replicate n CL_net) (CP_closing, c', w')"
          using client_net_steps_Cons [OF 1 client_net_steps_Cons [OF 2 n]] by blast
      qed
    qed
  qed
  with assms show ?thesis by blast
qed


section \<open>Both threads\<close>

interpretation same_conn: client_invariant "\<lambda>c. cl_conn c = conn" for conn
  by unfold_locales (auto simp: client_disconnect_def client_connect_def Let_def split: if_splits)

interpretation threaded: client_net_invariant "\<lambda>c. cl_thread c = Thread_running"
  by unfold_locales (auto simp: client_disconnect_def client_connect_def Let_def split: if_splits)

interpretation ended: client_net_invariant "\<lambda>c. cl_thread c = Thread_finished"
  by unfold_locales (auto simp: client_disconnect_def client_connect_def joinable_def Let_def split: if_splits)

interpretation not_ended: client_net_invariant "\<lambda>c. cl_thread c \<noteq> Thread_finished"
  by unfold_locales (auto simp: client_disconnect_def client_connect_def Let_def split: if_splits)

text \<open>What holds of the client in each phase of its thread.\<close>

fun client_phase_ok :: "client_phase \<Rightarrow> 'w client \<Rightarrow> bool" where
  "client_phase_ok CP_idle c \<longleftrightarrow> cl_thread c = No_thread \<and> \<not> client_is_connected c"
| "client_phase_ok CP_starting c \<longleftrightarrow> cl_thread c = Thread_running \<and> \<not> client_is_connected c"
| "client_phase_ok CP_closing c \<longleftrightarrow> cl_thread c = Thread_running \<and> \<not> client_is_running c"
| "client_phase_ok CP_farewell c \<longleftrightarrow> cl_thread c = Thread_running \<and> \<not> client_is_running c \<and> \<not> client_is_connected c"
| "client_phase_ok CP_done c \<longleftrightarrow> cl_thread c = Thread_finished \<and> \<not> client_is_running c \<and> \<not> client_is_connected c"
| "client_phase_ok (CP_dead f) c \<longleftrightarrow> True"
| "client_phase_ok _ c \<longleftrightarrow> cl_thread c = Thread_running"

lemmas client_queries = client_is_running_def client_is_connected_def

lemma client_call_phase:
  assumes "client_phase_ok p c" and "client_run_calls E as c w = Some (Inr (c', w'))"
  shows "client_phase_ok (after_call p c') c'"
proof -
  have conn: "client_is_connected c' = client_is_connected c"
    using same_conn.run_calls_inv [OF refl assms(2)] by (simp add: client_queries)
  have run: "\<not> client_is_running c \<Longrightarrow> \<not> client_is_running c'"
    using idle.run_calls_inv [OF _ assms(2)] by (simp add: client_queries)
  note threads = threaded.run_calls_inv [OF _ assms(2)] ended.run_calls_inv [OF _ assms(2)]
    not_ended.run_calls_inv [OF _ assms(2)]
  show ?thesis
    using assms(1) conn run threads by (cases p; cases "cl_thread c'") (auto simp: joinable_def)
qed

lemma client_step_phase:
  assumes "client_phase_ok p c" and "client_step E p c w = Some (Inr (p', c', w'))"
  shows "client_phase_ok p' c'"
proof (cases p)
  case CP_starting
  with assms show ?thesis by (auto simp: bind_simps dest: client_thread_start_result)
next
  case CP_announce
  with assms show ?thesis by (auto simp: bind_simps dest: threaded.invoke_inv)
next
  case CP_messages
  with assms show ?thesis by (auto simp: bind_simps dest: threaded.handle_incoming_messages_inv)
next
  case CP_closing
  then obtain conn where dc: "disconnect E (cl_conn c) w = (conn, w')" and "c' = c\<lparr>cl_conn := conn\<rparr>" "p' = CP_farewell"
    using assms(2) by (auto split: prod.splits)
  with conn_owner.released [OF dc] CP_closing assms(1) show ?thesis by (simp add: client_queries is_connected_def)
next
  case CP_farewell
  then obtain d where iv: "client_invoke E (cl_on_disconnect c) c w = Some (Inr (d, w'))"
    and "c' = d\<lparr>cl_thread := Thread_finished\<rparr>" "p' = CP_done"
    using assms(2) by (auto simp: bind_simps)
  with idle.invoke_inv [OF _ iv] offline.invoke_inv [OF _ iv] CP_farewell assms(1) show ?thesis
    by (simp add: client_queries is_connected_def)
qed (use assms in \<open>auto simp: client_queries split: if_splits\<close>)

interpretation phase_kept: kept_by "client_sys_step E" "\<lambda>(p, c, w). client_phase_ok p c" for E :: "'w env"
proof
  fix c c' :: "'w client_config" and l
  assume "client_sys_step E c l c'" and "case c of (p, c, w) \<Rightarrow> client_phase_ok p c"
  then show "case c' of (p, c, w) \<Rightarrow> client_phase_ok p c"
    by (induction rule: client_sys_step.induct) (auto intro: client_call_phase client_step_phase)
qed

lemma client_step_idle:
  assumes "\<not> cl_running c" and "client_step E p c w = Some (Inr (p', c', w'))"
  shows "\<not> cl_running c'"
  using assms
  by (cases p) (auto simp: bind_simps split: prod.splits
      dest: client_thread_start_result idle.invoke_inv idle.handle_incoming_messages_inv)

interpretation idle_kept: kept_by "client_sys_step E" "\<lambda>(p, c, w). \<not> cl_running c" for E :: "'w env"
proof
  fix c c' :: "'w client_config" and l
  assume "client_sys_step E c l c'" and "case c of (p, c, w) \<Rightarrow> \<not> cl_running c"
  then show "case c' of (p, c, w) \<Rightarrow> \<not> cl_running c"
    by (induction rule: client_sys_step.induct) (auto dest: idle.run_calls_inv client_step_idle)
qed

lemma disconnect_call: "client_run_calls E [CC_disconnect] c w = Some (Inr (client_disconnect c, w))"
  by (simp add: client_run_calls.simps)

lemma disconnect_stops:
  "client_steps E cfg ls (p, c, w) \<Longrightarrow> CL_user CC_disconnect \<in> set ls \<Longrightarrow> \<not> cl_running c"
proof (induction cfg ls "(p, c, w)" rule: runs.induct)
  case (cons cfg l cfg' ls)
  show ?case
  proof (cases "l = CL_user CC_disconnect")
    case True
    with cons.hyps(1) have "case cfg' of (p, c, w) \<Rightarrow> \<not> cl_running c"
      by (cases cfg) (auto elim!: client_sys_step_userE simp: disconnect_call client_disconnect_def)
    from idle_kept.runs_keep [OF cons.hyps(2) this] show ?thesis by simp
  qed (use cons in auto)
qed simp

text \<open>C10: in every state that a client can reach, however the calls of the user's thread are
  interleaved with the steps of its network thread: the connection is closed before the thread has
  connected and from its disconnection on; once a call has started the thread, another \<open>connect\<close> ends the
  process; nothing ever sets the running flag; and a \<open>disconnect\<close>, once called, is never lost: the client is
  not running from then on, so the thread leaves its loop the next time it reads the flag.\<close>

theorem client_interleaving:
  assumes "cl_thread c0 = No_thread" and "\<not> client_is_connected c0"
    and "client_steps E (CP_idle, c0, w0) ls (p, c, w)"
  shows "client_phase_ok p c
    \<and> (client_alive p \<and> p \<noteq> CP_idle \<longrightarrow> client_connect hostname service c = Inl Terminate)
    \<and> (client_is_running c \<longrightarrow> client_is_running c0)
    \<and> (CL_user CC_disconnect \<in> set ls \<longrightarrow> \<not> client_is_running c
        \<and> client_step E CP_loop c w = Some (Inr (CP_closing, c, w)))"
proof -
  have ok: "client_phase_ok p c" using phase_kept.runs_keep [OF assms(3)] assms(1,2) by simp
  moreover have "client_alive p \<and> p \<noteq> CP_idle \<longrightarrow> joinable (cl_thread c)"
    using ok by (cases p) (auto simp: joinable_def)
  moreover have "client_is_running c \<longrightarrow> client_is_running c0"
    using idle_kept.runs_keep [OF assms(3)] by (auto simp: client_is_running_def)
  moreover have "CL_user CC_disconnect \<in> set ls \<longrightarrow> \<not> client_is_running c"
    using disconnect_stops [OF assms(3)] by (simp add: client_is_running_def)
  ultimately show ?thesis by (simp add: client_connect_def client_is_running_def)
qed

text \<open>A disconnect that comes before the network thread has started holds; the thread connects, and
  leaves its loop at once.\<close>

theorem client_interleaving_witness:
  "\<exists>c w. client_steps sim (CP_idle, (ex_conn_client True)\<lparr>cl_thread := No_thread\<rparr>, k0)
       [CL_user (CC_connect ''host'' ''80''), CL_user CC_disconnect, CL_net, CL_net] (CP_loop, c, w)
     \<and> client_is_connected c \<and> \<not> client_is_running c \<and> client_step sim CP_loop c w = Some (Inr (CP_closing, c, w))"
proof -
  let ?c = "(ex_conn_client True)\<lparr>cl_thread := No_thread\<rparr> :: kernel client"
  let ?e = "ex_conn_client :: bool \<Rightarrow> kernel client"
  have flag: "client_disconnect (?e True) = ?e False"
    by (simp add: client_disconnect_def ex_conn_client_def client_new_def)
  have call: "client_run_calls sim [CC_connect ''host'' ''80''] ?c k0 = Some (Inr (?e True, k0))"
    by (simp add: client_run_calls.simps client_connect_def joinable_def ex_conn_client_def client_new_def)
  obtain conn where conn: "conn_socket conn = 3" and st: "client_thread_start sim (?e False) k0 =
     Inr ((?e False)\<lparr>cl_conn := conn\<rparr>, k0\<lparr>k_next := 4, k_open := [3]\<rparr>)"
    using sim_client_start by blast
  let ?d = "(?e False)\<lparr>cl_conn := conn\<rparr>" and ?k = "k0\<lparr>k_next := 4, k_open := [3]\<rparr>"
  have thr: "cl_thread (?e True) = Thread_running" by (simp add: ex_conn_client_def client_new_def)
  have 1: "client_sys_step sim (CP_idle, ?c, k0) (CL_user (CC_connect ''host'' ''80'')) (CP_starting, ?e True, k0)"
    using client_sys_step.user [OF call, of CP_idle] thr by (simp add: joinable_def)
  have 2: "client_sys_step sim (CP_starting, ?e True, k0) (CL_user CC_disconnect) (CP_starting, ?e False, k0)"
    using client_sys_step.user [OF disconnect_call, of CP_starting sim "?e True" k0] flag by simp
  have 3: "client_sys_step sim (CP_starting, ?e False, k0) CL_net (CP_announce, ?d, ?k)"
    by (rule client_sys_step.net) (simp add: st)
  have h: "cl_on_connect ?d = Some (\<lambda>w. ([], w))" by (simp add: ex_conn_client_def)
  have 4: "client_sys_step sim (CP_announce, ?d, ?k) CL_net (CP_loop, ?d, ?k)"
    by (rule client_sys_step.net) (simp add: h quiet_invoke del: client.simps)
  have steps: "client_steps sim (CP_idle, ?c, k0)
      [CL_user (CC_connect ''host'' ''80''), CL_user CC_disconnect, CL_net, CL_net] (CP_loop, ?d, ?k)"
    using 1 2 3 4 by (blast intro: runs.intros)
  have "cl_thread ?c = No_thread" "\<not> client_is_connected ?c"
    by (simp_all add: client_is_connected_def ex_conn_client_def client_new_def)
  note reached = client_interleaving [OF this steps, of "[]" "[]"]
  have "client_is_connected ?d" using conn by (simp add: client_is_connected_def is_connected_def)
  moreover have "\<not> client_is_running ?d" "client_step sim CP_loop ?d ?k = Some (Inr (CP_closing, ?d, ?k))"
    using reached by simp_all
  ultimately show ?thesis using steps by blast
qed

end
