(* ===== verification/Client_Ledger.thy ===== *)
theory Client_Ledger
  imports Ledger Client_System
begin

text \<open>
  The book-keeping of the theory \<open>Ledger\<close> for the client: its one socket, from the moment it is connected
  to the end of the destructor.
\<close>

section \<open>Calls of a handler\<close>

interpretation same_disconnect: client_net_invariant "\<lambda>c. cl_on_disconnect c = h" for h
  by unfold_locales (auto simp: client_disconnect_def client_connect_def Let_def split: if_splits)

interpretation same_data: client_net_invariant "\<lambda>c. cl_on_data c = h" for h
  by unfold_locales (auto simp: client_disconnect_def client_connect_def Let_def split: if_splits)

context send_monotone
begin

lemma client_run_calls_K:
  assumes "\<forall>h w. cl_on_disconnect c = Some h \<longrightarrow> K w (snd (h w))" and "client_run_calls E calls c w = Some (Inr (c', w'))"
  shows "K w w'"
proof -
  let ?P = "\<lambda>E' calls c w r. E' = E \<longrightarrow> (\<forall>h w. cl_on_disconnect c = Some h \<longrightarrow> K w (snd (h w))) \<longrightarrow>
    (\<forall>c' w'. r = Inr (c', w') \<longrightarrow> K w w' \<and> cl_on_disconnect c' = cl_on_disconnect c)"
  have "?P E calls c w r" if "client_run_calls E calls c w = Some r" for r
    using that
  proof (rule client_run_calls.raw_induct [where P = ?P, rotated], goal_cases)
    case (1 rec E' calls c w r)
    show ?case
    proof (intro impI allI)
      fix c' w'
      assume E': "E' = E" and h: "\<forall>h w. cl_on_disconnect c = Some h \<longrightarrow> K w (snd (h w))" and r: "r = Inr (c', w')"
      have rec: "K w w' \<and> cl_on_disconnect c' = cl_on_disconnect c"
        if "rec E calls d w = Some (Inr (c', w'))" "cl_on_disconnect d = cl_on_disconnect c" for calls d w c' w'
        using 1(1) [OF that(1)] that(2) h by simp
      show "K w w' \<and> cl_on_disconnect c' = cl_on_disconnect c"
      proof (cases calls)
        case Nil
        with 1(2) r show ?thesis by (simp add: K_refl)
      next
        case (Cons a as)
        show ?thesis
        proof (cases a)
          case (CC_send_message msg)
          with 1(2) r Cons E' obtain x ec w1 d w2 where
            send: "send_ec E (cl_conn c) msg (cl_ec c) (sf_bits sf_none) w = Some (Inr (x, ec, w1))"
            and mid: "(if ec_bool ec then (case cl_on_disconnect c of None \<Rightarrow> Some (Inl Bad_function_call)
                | Some h \<Rightarrow> rec E (fst (h w1)) (c\<lparr>cl_ec := ec\<rparr>) (snd (h w1)))
                else Some (Inr (c\<lparr>cl_ec := ec\<rparr>, w1))) = Some (Inr (d, w2))"
            and rest: "rec E as d w2 = Some (Inr (c', w'))"
            by (auto simp: bind_simps Let_def cong: if_cong option.case_cong)
          have "K w1 w2 \<and> cl_on_disconnect d = cl_on_disconnect c"
            using mid h by (auto simp: K_refl split: if_splits option.splits intro: K_trans [rotated] dest!: rec)
          with rec [OF rest] send_ec_K [OF send] show ?thesis by (blast intro: K_trans)
        qed (use 1(2) r Cons E' in \<open>auto simp: bind_simps client_disconnect_def client_connect_def Let_def
              split: if_splits dest: rec\<close>)
      qed
    qed
  qed
  with assms show ?thesis by blast
qed

lemma client_invoke_K:
  assumes "\<forall>h w. cl_on_disconnect c = Some h \<longrightarrow> K w (snd (h w))" and "client_invoke E h c w = Some (Inr (c', w'))"
    and "\<And>f. h = Some f \<Longrightarrow> K w (snd (f w))"
  shows "K w w'"
  using assms(2,3) by (auto simp: client_invoke_def split: option.splits intro: K_trans dest: client_run_calls_K [OF assms(1)])

end

section \<open>The books of a client\<close>

definition client_tidy :: "('w \<times> sys_event list) client \<Rightarrow> bool" where
  "client_tidy c \<longleftrightarrow> (\<forall>h d x. cl_on_data c = Some h \<longrightarrow> quiet x (snd (h d x)))
     \<and> (\<forall>h x. cl_on_connect c = Some h \<longrightarrow> quiet x (snd (h x)))
     \<and> (\<forall>h x. cl_on_disconnect c = Some h \<longrightarrow> quiet x (snd (h x)))"

lemma client_tidy_handlers:
  assumes "client_tidy c"
  shows "cl_on_data c = Some f \<Longrightarrow> quiet x (snd (f d x))"
    and "cl_on_connect c = Some h \<Longrightarrow> quiet x (snd (h x))"
    and "cl_on_disconnect c = Some h \<Longrightarrow> quiet x (snd (h x))"
  using assms unfolding client_tidy_def by blast+

lemma client_tidy_fields [simp]:
  "client_tidy (c\<lparr>cl_ec := ec\<rparr>) = client_tidy c" "client_tidy (c\<lparr>cl_conn := conn\<rparr>) = client_tidy c"
  by (simp_all add: client_tidy_def)

text \<open>The client opens nothing; what it closes is its own socket, which it then does not own any more.\<close>

definition client_balanced ::
  "('w \<times> sys_event list) client \<times> 'w \<times> sys_event list \<Rightarrow> ('w \<times> sys_event list) client \<times> 'w \<times> sys_event list \<Rightarrow> bool" where
  "client_balanced = (\<lambda>(c, x) (c', y). client_tidy c \<longrightarrow> client_tidy c' \<and>
     (\<exists>u. snd y = snd x @ u \<and> gain u = {#} \<and> sockets [conn_socket (cl_conn c)] = loss u + sockets [conn_socket (cl_conn c')]))"

lemma client_balanced_refl [simp]: "client_balanced c c"
  by (auto simp: client_balanced_def gain_def loss_def intro!: exI [of _ "[]"])

lemma client_balanced_trans:
  assumes "client_balanced c1 c2" and "client_balanced c2 c3"
  shows "client_balanced c1 c3"
proof -
  obtain s1 x1 s2 x2 s3 x3 where c: "c1 = (s1, x1)" "c2 = (s2, x2)" "c3 = (s3, x3)" by (metis surj_pair)
  have "client_tidy s3 \<and> (\<exists>u. snd x3 = snd x1 @ u \<and> gain u = {#} \<and> sockets [conn_socket (cl_conn s1)] = loss u + sockets [conn_socket (cl_conn s3)])"
    if t: "client_tidy s1"
  proof -
    obtain u where u: "client_tidy s2" "snd x2 = snd x1 @ u" "gain u = {#}"
      "sockets [conn_socket (cl_conn s1)] = loss u + sockets [conn_socket (cl_conn s2)]"
      using assms(1) t by (auto simp: client_balanced_def c simp del: filter.simps)
    obtain v where v: "client_tidy s3" "snd x3 = snd x2 @ v" "gain v = {#}"
      "sockets [conn_socket (cl_conn s2)] = loss v + sockets [conn_socket (cl_conn s3)]"
      using assms(2) u(1) by (auto simp: client_balanced_def c simp del: filter.simps)
    from u v show ?thesis by (intro conjI exI [of _ "u @ v"]) (simp_all only: gain_append loss_append append.assoc add_0 add.assoc)
  qed
  then show ?thesis by (auto simp: client_balanced_def c)
qed

interpretation same_connect: client_net_invariant "\<lambda>c. cl_on_connect c = h" for h
  by unfold_locales (auto simp: client_disconnect_def client_connect_def Let_def split: if_splits)

lemma client_invoke_balanced:
  assumes "client_invoke (traced E) h c x = Some (Inr (c', y))" and "client_tidy c \<Longrightarrow> \<forall>f. h = Some f \<longrightarrow> quiet x (snd (f x))"
  shows "client_balanced (c, x) (c', y)"
proof (cases "client_tidy c")
  case True
  have "quiet x y"
  proof (rule logs.client_invoke_K [OF _ assms(1)])
    show "\<forall>h w. cl_on_disconnect c = Some h \<longrightarrow> quiet w (snd (h w))" using True unfolding client_tidy_def by blast
  qed (use assms(2) True in blast)
  moreover have "cl_conn c' = cl_conn c" by (rule same_conn.invoke_inv [OF refl assms(1)])
  moreover have "client_tidy c'"
    using True same_data.invoke_inv [OF refl assms(1)] same_connect.invoke_inv [OF refl assms(1)]
      same_disconnect.invoke_inv [OF refl assms(1)] unfolding client_tidy_def by metis
  ultimately show ?thesis by (auto simp: client_balanced_def quiet_def gain_def loss_def)
qed (simp add: client_balanced_def)

lemma client_balanced_conn:
  assumes "y = (w', t @ u)" and "opened u = []" and "received u = []"
    and "(conn = cl_conn c \<and> closed u = []) \<or> (conn = connection_new \<and> sockets (closed u) = sockets [conn_socket (cl_conn c)])"
  shows "client_balanced (c, w, t) (c\<lparr>cl_ec := ec, cl_conn := conn\<rparr>, y)"
  using assms by (auto simp: client_balanced_def client_tidy_def gain_def loss_def connection_new_def)

lemma client_messages_balanced:
  assumes "client_handle_incoming_messages (traced E) c x = Some (Inr (c', y))"
  shows "client_balanced (c, x) (c', y)"
proof (cases "is_connected (cl_conn c)")
  case False
  with assms have "client_invoke (traced E) (cl_on_disconnect c) c x = Some (Inr (c', y))"
    by (simp add: client_handle_incoming_messages_def)
  then show ?thesis by (rule client_invoke_balanced) (blast dest: client_tidy_handlers(3))
next
  case True
  obtain av x1 where av: "has_data_available (traced E) (cl_conn c) x = (av, x1)" by (cases "has_data_available (traced E) (cl_conn c) x")
  have "quiet x x1"
    using av by (cases x) (auto simp: has_data_available_def poll_socket_def traced_simps quiet_def Let_def split: prod.splits if_splits)
  then have q: "client_balanced (c, x) (c, x1)" by (auto simp: client_balanced_def quiet_def gain_def loss_def)
  show ?thesis
  proof (cases av)
    case True
    with assms av \<open>is_connected (cl_conn c)\<close> q show ?thesis by (simp add: client_handle_incoming_messages_def)
  next
    case False
    obtain w1 t1 where x1: "x1 = (w1, t1)" by (cases x1)
    obtain d ec conn x2 where rc: "receive_max_ec (traced E) (cl_conn c) (cl_ec c) 0 x1 = (d, ec, conn, x2)" by (metis prod.exhaust)
    obtain w2 u where "x2 = (w2, t1 @ u)" "opened u = []" "received u = []"
      "(conn = cl_conn c \<and> closed u = []) \<or> (conn = connection_new \<and> sockets (closed u) = sockets [conn_socket (cl_conn c)])"
      using receive_max_log [OF rc [unfolded x1]] by fastforce
    then have r: "client_balanced (c, x1) (c\<lparr>cl_ec := ec, cl_conn := conn\<rparr>, x2)" unfolding x1 by (rule client_balanced_conn)
    let ?c = "c\<lparr>cl_ec := ec, cl_conn := conn\<rparr>"
    obtain h where iv: "client_invoke (traced E) h ?c x2 = Some (Inr (c', y))"
      and h: "h = cl_on_disconnect c \<or> h = map_option (\<lambda>h. h d) (cl_on_data c)"
      using assms av False True rc by (auto simp: client_handle_incoming_messages_def Let_def split: if_splits)
    have "quiet x2 (snd (f x2))" if "client_tidy c" and f: "h = Some f" for f
      using h
    proof
      assume "h = cl_on_disconnect c"
      with f have "cl_on_disconnect c = Some f" by simp
      then show ?thesis by (rule client_tidy_handlers(3) [OF that(1)])
    next
      assume "h = map_option (\<lambda>h. h d) (cl_on_data c)"
      with f obtain g where "cl_on_data c = Some g" and "f = g d" by auto
      with client_tidy_handlers(1) [OF that(1)] show ?thesis by blast
    qed
    then have "client_balanced (?c, x2) (c', y)" by (intro client_invoke_balanced [OF iv]) simp
    with q r show ?thesis by (blast intro: client_balanced_trans)
  qed
qed

lemma client_loop_balanced:
  assumes "client_loop (traced E) c x = Some (Inr (c', y))"
  shows "client_balanced (c, x) (c', y)"
proof -
  let ?P = "\<lambda>E' c x r. E' = traced E \<longrightarrow> (\<forall>c' y. r = Inr (c', y) \<longrightarrow> client_balanced (c, x) (c', y))"
  have "?P (traced E) c x r" if "client_loop (traced E) c x = Some r" for r
    using that
  proof (rule client_loop.raw_induct [where P = ?P, rotated], goal_cases)
    case (1 rec E' c x r)
    show ?case
    proof (cases "cl_running c")
      case True
      show ?thesis
      proof (intro impI allI)
        fix c' y
        assume E': "E' = traced E" and "r = Inr (c', y)"
        then obtain c1 x1 where "client_handle_incoming_messages E' c x = Some (Inr (c1, x1))" "rec E' c1 x1 = Some (Inr (c', y))"
          using 1(2) True by (auto simp: bind_simps)
        then have "client_balanced (c, x) (c1, x1)" "client_balanced (c1, x1) (c', y)"
          using 1(1) E' client_messages_balanced by blast+
        then show "client_balanced (c, x) (c', y)" by (rule client_balanced_trans)
      qed
    qed (use 1(2) in auto)
  qed
  with assms show ?thesis by blast
qed

section \<open>Property\<close>


text \<open>On the small kernel: a client that is not running connects on descriptor 3 and closes it.\<close>

lemma traced_sim_client:
  "\<exists>conn w t w' t'. conn_socket conn = 3 \<and> client_thread_start (traced sim) (ex_conn_client False) (k0, []) =
       Inr ((ex_conn_client False)\<lparr>cl_conn := conn\<rparr>, w, t)
     \<and> client_destroy (traced sim) (ex_conn_client False) (k0, []) = Some (Inr (w', t'))"
proof -
  let ?e = "node_endpoint (Addrinfo 6 sim_addr 16 None)" and ?c = "ex_conn_client False :: (kernel \<times> sys_event list) client"
  obtain t where r: "resolve_ec (traced sim) ''host'' ''80'' no_error (k0, []) = Inr ([?e, ?e], no_error, k0, t)"
    by (simp add: resolve_ec_def getaddrinfo_def any_address_def traced_simps sim_calls c_str_def from_native_address_simps
        sim_addr_def node_endpoint_def)
  have "\<exists>conn w t'. conn_socket conn = 3 \<and> connect_ec (traced sim) connection_new [?e, ?e] no_error (k0, t) = Inr ((), no_error, conn, w, t')"
    by (simp add: connect_ec_def try_connect_def traced_simps sim_calls k0_def family_def node_endpoint_def
        sim_addr_def sa_family_def byte_at_def protocol_def get_local_endpoint_def get_remote_endpoint_def
        get_endpoint_def from_native_address_simps)
  then obtain conn w t' where conn: "conn_socket conn = 3"
    and st: "client_thread_start (traced sim) ?c (k0, []) = Inr (?c\<lparr>cl_conn := conn\<rparr>, w, t')"
    using r by (auto simp: client_thread_start_def ex_conn_client_def client_new_def)
  obtain conn' y where "disconnect (traced sim) conn (w, t') = (conn', y)"
    by (cases "disconnect (traced sim) conn (w, t')")
  with st obtain d where "client_network_thread (traced sim) ?c (k0, []) = Some (Inr (d, y))"
    by (simp add: client_network_thread_def ex_conn_client_def client_new_def quiet_invoke client_loop.simps split: prod.splits)
  moreover have "cl_thread ?c = Thread_running" by (simp add: ex_conn_client_def)
  ultimately have "client_destroy (traced sim) ?c (k0, []) = Some (Inr (connection_destroy (traced sim) (cl_conn d) y))"
    by (simp add: client_destroy_def joinable_def)
  with conn st show ?thesis by (cases "connection_destroy (traced sim) (cl_conn d) y") auto
qed


end
