(* ===== verification/Logging.thy ===== *)
theory Logging
  imports Yonaa_Prelude
begin

text \<open>
  \<open>src/logging.cpp\<close>, \<open>include/yonaa/logging.hpp\<close> and \<open>example/logging_example.cpp\<close>: the set-up of the two
  loggers, the logging macros, and the example program. The package \<open>spdlog\<close> is a parameter: the
  record \<open>spdlog\<close> has the five functions the sources call, and \<open>spdlog_contract\<close> states what its
  documentation says of them in terms of what can be observed (\<open>log_view\<close>): which loggers are
  registered, their level and pattern, and what has been printed.

  A \<open>std::string_view\<close> is the array it points into and a length. Its \<open>data()\<close> is used as a C string.
\<close>

section \<open>Model\<close>

datatype log_level = trace | debug | info | warn | err | critical | off

text \<open>The functions of \<open>spdlog\<close>. Making a logger fails with an exception (\<open>None\<close>); the constants
  \<open>SPDLOG_LEVEL_...\<close> are macros of its headers.\<close>

record ('w, 'l) spdlog =
  SPDLOG_LEVEL :: "log_level \<Rightarrow> int"
  stdout_color_mt :: "string \<Rightarrow> 'w \<Rightarrow> 'l option \<times> 'w"
  spd_get :: "string \<Rightarrow> 'w \<Rightarrow> 'l option"
  set_pattern :: "'l \<Rightarrow> string \<Rightarrow> 'w \<Rightarrow> 'w"
  set_level :: "'l \<Rightarrow> int \<Rightarrow> 'w \<Rightarrow> 'w"
  log_at :: "'l \<Rightarrow> int \<Rightarrow> string \<Rightarrow> 'w \<Rightarrow> 'w"

record string_view =
  sv_array :: string
  sv_size :: nat

definition sv_str :: "string_view \<Rightarrow> string" where
  "sv_str v = take (sv_size v) (sv_array v)"

text \<open>A string literal converted to a view: the array ends with a NUL the view does not include.\<close>

definition sv_literal :: "string \<Rightarrow> string_view" where
  "sv_literal s = \<lparr>sv_array = s @ [NUL], sv_size = length s\<rparr>"

text \<open>\<open>std::string\<close> from a \<open>const char *\<close>: up to the first NUL; without one the read leaves the array.\<close>

definition string_of_data :: "string_view \<Rightarrow> string result" where
  "string_of_data v = (if NUL \<in> set (sv_array v) then Inr (c_str (sv_array v)) else Inl Out_of_bounds)"

datatype log_outcome = Log_done | Log_threw | Log_fault fault

definition log_pattern :: string where
  "log_pattern = ''%^[%T] %n: %v%$''"

text \<open>\<open>init\<close>: the outcome, the global \<open>detail::app_name\<close> afterwards, and the world. An exception of
  \<open>spdlog\<close> leaves the function; what was done before it stays.\<close>

definition logging_init ::
  "('w, 'l) spdlog \<Rightarrow> string_view \<Rightarrow> log_level \<Rightarrow> string \<Rightarrow> 'w \<Rightarrow> log_outcome \<times> string \<times> 'w" where
  "logging_init L app_name level detail_app_name w =
     (case stdout_color_mt L ''yonaa'' w of
        (None, w1) \<Rightarrow> (Log_threw, detail_app_name, w1)
      | (Some internal_logger, w1) \<Rightarrow>
          (let w2 = set_pattern L internal_logger log_pattern w1;
               w3 = set_level L internal_logger (SPDLOG_LEVEL L level) w2
           in case string_of_data app_name of
                Inl f \<Rightarrow> (Log_fault f, detail_app_name, w3)
              | Inr name \<Rightarrow>
                  (case stdout_color_mt L name w3 of
                     (None, w4) \<Rightarrow> (Log_threw, name, w4)
                   | (Some app_logger, w4) \<Rightarrow>
                       (let w5 = set_pattern L app_logger log_pattern w4;
                            w6 = set_level L app_logger (SPDLOG_LEVEL L level) w5
                        in (Log_done, name, w6)))))"

text \<open>The macros. Without \<open>YONAA_ENABLE_LOGGING\<close> they are empty; \<open>enabled\<close> says how the program was
  compiled. The message is the formatted one.\<close>

definition YONAA_LOG :: "bool \<Rightarrow> ('w, 'l) spdlog \<Rightarrow> string \<Rightarrow> log_level \<Rightarrow> string \<Rightarrow> 'w \<Rightarrow> 'w result" where
  "YONAA_LOG enabled L logger_name level msg w =
     (if enabled
      then if spd_get L logger_name w \<noteq> None
           then (case spd_get L logger_name w of
                   None \<Rightarrow> Inl Null_deref
                 | Some logger \<Rightarrow> Inr (log_at L logger (SPDLOG_LEVEL L level) msg w))
           else Inr w
      else Inr w)"

definition YONAA_INTERNAL_TRACE where "YONAA_INTERNAL_TRACE en L msg w = YONAA_LOG en L ''yonaa'' trace msg w"
definition YONAA_INTERNAL_DEBUG where "YONAA_INTERNAL_DEBUG en L msg w = YONAA_LOG en L ''yonaa'' debug msg w"
definition YONAA_INTERNAL_INFO where "YONAA_INTERNAL_INFO en L msg w = YONAA_LOG en L ''yonaa'' info msg w"
definition YONAA_INTERNAL_WARN where "YONAA_INTERNAL_WARN en L msg w = YONAA_LOG en L ''yonaa'' warn msg w"
definition YONAA_INTERNAL_ERROR where "YONAA_INTERNAL_ERROR en L msg w = YONAA_LOG en L ''yonaa'' err msg w"
definition YONAA_INTERNAL_CRITICAL where "YONAA_INTERNAL_CRITICAL en L msg w = YONAA_LOG en L ''yonaa'' critical msg w"

definition YONAA_TRACE where "YONAA_TRACE en L app_name msg w = YONAA_LOG en L app_name trace msg w"
definition YONAA_DEBUG where "YONAA_DEBUG en L app_name msg w = YONAA_LOG en L app_name debug msg w"
definition YONAA_INFO where "YONAA_INFO en L app_name msg w = YONAA_LOG en L app_name info msg w"
definition YONAA_WARN where "YONAA_WARN en L app_name msg w = YONAA_LOG en L app_name warn msg w"
definition YONAA_ERROR where "YONAA_ERROR en L app_name msg w = YONAA_LOG en L app_name err msg w"
definition YONAA_CRITICAL where "YONAA_CRITICAL en L app_name msg w = YONAA_LOG en L app_name critical msg w"

text \<open>The example program: an exception of \<open>init\<close> is not caught in \<open>main\<close>. The global \<open>app_name\<close> is empty
  when the program starts, and \<open>log_level::trace\<close> is the default argument.\<close>

definition logging_example :: "bool \<Rightarrow> ('w, 'l) spdlog \<Rightarrow> 'w \<Rightarrow> 'w result" where
  "logging_example en L w =
     (case logging_init L (sv_literal ''logging_example'') trace [] w of
        (Log_threw, _, _) \<Rightarrow> Inl Terminate
      | (Log_fault f, _, _) \<Rightarrow> Inl f
      | (Log_done, app, w1) \<Rightarrow>
          rbind (YONAA_TRACE en L app ''Hello, World!'' w1) (\<lambda>w2.
          rbind (YONAA_DEBUG en L app ''Hello, World!'' w2) (\<lambda>w3.
          rbind (YONAA_INFO en L app ''Hello, World!'' w3) (\<lambda>w4.
          rbind (YONAA_WARN en L app ''Hello, World!'' w4) (\<lambda>w5.
          rbind (YONAA_ERROR en L app ''Hello, World!'' w5) (\<lambda>w6.
          YONAA_CRITICAL en L app ''Hello, World!'' w6))))))"

section \<open>What spdlog promises\<close>

record ('w, 'l) log_view =
  registered :: "'w \<Rightarrow> string \<Rightarrow> 'l option"
  level_of :: "'w \<Rightarrow> 'l \<Rightarrow> int"
  pattern_of :: "'w \<Rightarrow> 'l \<Rightarrow> string"
  printed :: "'w \<Rightarrow> ('l \<times> int \<times> string) list"

definition levels_ordered :: "('w, 'l) spdlog \<Rightarrow> bool" where
  "levels_ordered L \<longleftrightarrow>
     sorted_wrt (<) (map (SPDLOG_LEVEL L) [trace, debug, info, warn, err, critical, off])"

text \<open>Making a logger registers a new one under its name, or throws if the name is taken. A message is
  printed if its level is at least the logger's.\<close>

definition spdlog_contract :: "('w, 'l) spdlog \<Rightarrow> ('w, 'l) log_view \<Rightarrow> bool" where
  "spdlog_contract L V \<longleftrightarrow> levels_ordered L
   \<and> (\<forall>n w. spd_get L n w = registered V w n)
   \<and> (\<forall>n w r w'. stdout_color_mt L n w = (r, w') \<longrightarrow>
        printed V w' = printed V w
      \<and> (\<forall>m l. registered V w m = Some l \<longrightarrow> level_of V w' l = level_of V w l \<and> pattern_of V w' l = pattern_of V w l)
      \<and> (case r of None \<Rightarrow> registered V w n \<noteq> None \<and> registered V w' = registered V w
         | Some l \<Rightarrow> registered V w n = None \<and> (\<forall>m. registered V w m \<noteq> Some l)
             \<and> registered V w' = (registered V w)(n \<mapsto> l)))
   \<and> (\<forall>l p w. registered V (set_pattern L l p w) = registered V w
        \<and> level_of V (set_pattern L l p w) = level_of V w
        \<and> pattern_of V (set_pattern L l p w) = (pattern_of V w)(l := p)
        \<and> printed V (set_pattern L l p w) = printed V w)
   \<and> (\<forall>l k w. registered V (set_level L l k w) = registered V w
        \<and> level_of V (set_level L l k w) = (level_of V w)(l := k)
        \<and> pattern_of V (set_level L l k w) = pattern_of V w
        \<and> printed V (set_level L l k w) = printed V w)
   \<and> (\<forall>l k msg w. registered V (log_at L l k msg w) = registered V w
        \<and> level_of V (log_at L l k msg w) = level_of V w
        \<and> pattern_of V (log_at L l k msg w) = pattern_of V w
        \<and> printed V (log_at L l k msg w) = printed V w @ (if level_of V w l \<le> k then [(l, k, msg)] else []))"

text \<open>A logger as \<open>init\<close> leaves it.\<close>

definition configured :: "('w, 'l) log_view \<Rightarrow> int \<Rightarrow> string \<Rightarrow> 'l \<Rightarrow> 'w \<Rightarrow> bool" where
  "configured V k n l w \<longleftrightarrow> registered V w n = Some l \<and> level_of V w l = k \<and> pattern_of V w l = log_pattern"

lemma contract_make:
  assumes "spdlog_contract L V" and "stdout_color_mt L n w = (r, w')"
  shows "printed V w' = printed V w"
    and "registered V w m = Some l \<Longrightarrow> level_of V w' l = level_of V w l \<and> pattern_of V w' l = pattern_of V w l"
    and "r = None \<Longrightarrow> registered V w n \<noteq> None \<and> registered V w' = registered V w"
    and "r = Some k \<Longrightarrow> registered V w n = None \<and> (\<forall>m. registered V w m \<noteq> Some k) \<and> registered V w' = (registered V w)(n \<mapsto> k)"
proof -
  have c: "printed V w' = printed V w
      \<and> (\<forall>m l. registered V w m = Some l \<longrightarrow> level_of V w' l = level_of V w l \<and> pattern_of V w' l = pattern_of V w l)
      \<and> (case r of None \<Rightarrow> registered V w n \<noteq> None \<and> registered V w' = registered V w
         | Some l \<Rightarrow> registered V w n = None \<and> (\<forall>m. registered V w m \<noteq> Some l)
             \<and> registered V w' = (registered V w)(n \<mapsto> l))"
    using assms unfolding spdlog_contract_def by blast
  show "printed V w' = printed V w"
    "registered V w m = Some l \<Longrightarrow> level_of V w' l = level_of V w l \<and> pattern_of V w' l = pattern_of V w l"
    "r = None \<Longrightarrow> registered V w n \<noteq> None \<and> registered V w' = registered V w"
    "r = Some k \<Longrightarrow> registered V w n = None \<and> (\<forall>m. registered V w m \<noteq> Some k) \<and> registered V w' = (registered V w)(n \<mapsto> k)"
    using c by auto
qed

lemma contract_simps:
  assumes "spdlog_contract L V"
  shows "spd_get L n w = registered V w n"
    and "registered V (set_pattern L l p w) = registered V w" and "level_of V (set_pattern L l p w) = level_of V w"
    and "pattern_of V (set_pattern L l p w) = (pattern_of V w)(l := p)" and "printed V (set_pattern L l p w) = printed V w"
    and "registered V (set_level L l k w) = registered V w" and "level_of V (set_level L l k w) = (level_of V w)(l := k)"
    and "pattern_of V (set_level L l k w) = pattern_of V w" and "printed V (set_level L l k w) = printed V w"
    and "registered V (log_at L l k msg w) = registered V w" and "level_of V (log_at L l k msg w) = level_of V w"
    and "pattern_of V (log_at L l k msg w) = pattern_of V w"
    and "printed V (log_at L l k msg w) = printed V w @ (if level_of V w l \<le> k then [(l, k, msg)] else [])"
  using assms unfolding spdlog_contract_def by blast+

text \<open>Making, and then configuring, a logger.\<close>

lemma make_configured:
  assumes "spdlog_contract L V" and "registered V w n = None"
  obtains l w' where "stdout_color_mt L n w = (Some l, w')" "\<forall>m. registered V w m \<noteq> Some l"
    "registered V (set_level L l k (set_pattern L l log_pattern w')) = (registered V w)(n \<mapsto> l)"
    "configured V k n l (set_level L l k (set_pattern L l log_pattern w'))"
    "printed V (set_level L l k (set_pattern L l log_pattern w')) = printed V w"
    "\<And>m l' k'. m \<noteq> n \<Longrightarrow> configured V k' m l' w \<Longrightarrow> configured V k' m l' (set_level L l k (set_pattern L l log_pattern w'))"
proof -
  obtain r w' where mk: "stdout_color_mt L n w = (r, w')" by fastforce
  note c = contract_make [OF assms(1) mk]
  obtain l where l: "r = Some l" using c(3) assms(2) by (cases r) auto
  note c4 = c(4) [OF l]
  show ?thesis
  proof (rule that [OF mk [unfolded l]])
    show "\<forall>m. registered V w m \<noteq> Some l" using c4 by blast
    show "registered V (set_level L l k (set_pattern L l log_pattern w')) = (registered V w)(n \<mapsto> l)"
      using c4 by (simp add: contract_simps [OF assms(1)])
    show "configured V k n l (set_level L l k (set_pattern L l log_pattern w'))"
      using c4 by (simp add: configured_def contract_simps [OF assms(1)])
    show "printed V (set_level L l k (set_pattern L l log_pattern w')) = printed V w"
      using c(1) by (simp add: contract_simps [OF assms(1)])
    fix m l' k' assume m: "m \<noteq> n" and cf: "configured V k' m l' w"
    then have "l' \<noteq> l" using c4 by (auto simp: configured_def)
    then show "configured V k' m l' (set_level L l k (set_pattern L l log_pattern w'))"
      using cf c4 c(2) [of m l'] m by (simp add: configured_def contract_simps [OF assms(1)])
  qed
qed

lemma takeWhile_NUL: "NUL \<notin> set s \<Longrightarrow> takeWhile (\<lambda>c. c \<noteq> NUL) (s @ NUL # t) = s"
  by (induction s) auto

lemma length_takeWhile_found: "x \<in> set xs \<Longrightarrow> \<not> P x \<Longrightarrow> length (takeWhile P xs) < length xs"
  by (induction xs) auto

lemma string_of_literal [simp]: "NUL \<notin> set s \<Longrightarrow> string_of_data (sv_literal s) = Inr s"
  by (simp add: string_of_data_def sv_literal_def c_str_def takeWhile_NUL)

section \<open>The macros and the set-up\<close>

text \<open>A logging macro does not fault and changes nothing but what has been printed; it prints its message
  exactly if logging is compiled in, the logger exists, and the level is at least the logger's.\<close>

lemma YONAA_LOG_prints:
  assumes "spdlog_contract L V"
  obtains w' where "YONAA_LOG en L n lv msg w = Inr w'"
    "registered V w' = registered V w" "level_of V w' = level_of V w" "pattern_of V w' = pattern_of V w"
    "printed V w' = printed V w @ (case registered V w n of
        Some l \<Rightarrow> if en \<and> level_of V w l \<le> SPDLOG_LEVEL L lv then [(l, SPDLOG_LEVEL L lv, msg)] else []
      | None \<Rightarrow> [])"
proof (cases "en \<and> registered V w n \<noteq> None")
  case True
  then obtain l where "registered V w n = Some l" by blast
  with True show ?thesis
    by (intro that [of "log_at L l (SPDLOG_LEVEL L lv) msg w"])
      (simp_all add: YONAA_LOG_def contract_simps [OF assms])
next
  case False
  then show ?thesis
    by (intro that [of w]) (auto simp: YONAA_LOG_def contract_simps [OF assms] split: option.splits)
qed

text \<open>The same message at each of a list of levels.\<close>

fun log_seq :: "bool \<Rightarrow> ('w, 'l) spdlog \<Rightarrow> string \<Rightarrow> string \<Rightarrow> log_level list \<Rightarrow> 'w \<Rightarrow> 'w result" where
  "log_seq en L n msg [] w = Inr w"
| "log_seq en L n msg (lv # lvs) w = rbind (YONAA_LOG en L n lv msg w) (log_seq en L n msg lvs)"

lemma log_seq_abs:
  "log_seq en L n msg [] = Inr"
  "log_seq en L n msg (lv # lvs) = (\<lambda>w. rbind (YONAA_LOG en L n lv msg w) (log_seq en L n msg lvs))"
  by (simp_all add: fun_eq_iff)

lemma rbind_return: "rbind m Inr = m"
  by (cases m) (simp_all add: rbind_def)

lemma log_seq_prints:
  assumes "spdlog_contract L V" and "configured V k n l w" and "\<forall>lv \<in> set lvs. k \<le> SPDLOG_LEVEL L lv"
  shows "\<exists>w'. log_seq en L n msg lvs w = Inr w' \<and> configured V k n l w'
    \<and> printed V w' = printed V w @ (if en then map (\<lambda>lv. (l, SPDLOG_LEVEL L lv, msg)) lvs else [])"
  using assms(2,3)
proof (induction lvs arbitrary: w)
  case (Cons lv lvs)
  obtain w1 where "YONAA_LOG en L n lv msg w = Inr w1" "configured V k n l w1"
    "printed V w1 = printed V w @ (if en then [(l, SPDLOG_LEVEL L lv, msg)] else [])"
    using Cons.prems by - (rule YONAA_LOG_prints [OF assms(1), of en n lv msg w], auto simp: configured_def)
  with Cons.IH [of w1] Cons.prems(2) show ?case by auto
qed simp

lemma logging_init_done:
  assumes "spdlog_contract L V" and "registered V w ''yonaa'' = None" and "registered V w n = None"
    and "string_of_data v = Inr n" and "n \<noteq> ''yonaa''"
  obtains w' li la where "logging_init L v lv old w = (Log_done, n, w')"
    "registered V w' = (registered V w)(''yonaa'' \<mapsto> li, n \<mapsto> la)" "li \<noteq> la"
    "configured V (SPDLOG_LEVEL L lv) ''yonaa'' li w'" "configured V (SPDLOG_LEVEL L lv) n la w'"
    "printed V w' = printed V w"
proof -
  let ?k = "SPDLOG_LEVEL L lv"
  obtain li w1 where a: "stdout_color_mt L ''yonaa'' w = (Some li, w1)"
    "registered V (set_level L li ?k (set_pattern L li log_pattern w1)) = (registered V w)(''yonaa'' \<mapsto> li)"
    "configured V ?k ''yonaa'' li (set_level L li ?k (set_pattern L li log_pattern w1))"
    "printed V (set_level L li ?k (set_pattern L li log_pattern w1)) = printed V w"
    by (rule make_configured [OF assms(1,2), of ?k]) blast
  let ?w = "set_level L li ?k (set_pattern L li log_pattern w1)"
  have none: "registered V ?w n = None" using a(2) assms(3,5) by simp
  obtain la w2 where b: "stdout_color_mt L n ?w = (Some la, w2)" "\<forall>m. registered V ?w m \<noteq> Some la"
    "registered V (set_level L la ?k (set_pattern L la log_pattern w2)) = (registered V ?w)(n \<mapsto> la)"
    "configured V ?k n la (set_level L la ?k (set_pattern L la log_pattern w2))"
    "printed V (set_level L la ?k (set_pattern L la log_pattern w2)) = printed V ?w"
    "\<And>m l' k'. m \<noteq> n \<Longrightarrow> configured V k' m l' ?w \<Longrightarrow> configured V k' m l' (set_level L la ?k (set_pattern L la log_pattern w2))"
    by (rule make_configured [OF assms(1) none, of ?k]) blast
  show ?thesis
  proof (rule that)
    show "logging_init L v lv old w = (Log_done, n, set_level L la ?k (set_pattern L la log_pattern w2))"
      using a(1) b(1) assms(4) by (simp add: logging_init_def Let_def)
    show "li \<noteq> la" using a(3) b(2) by (auto simp: configured_def)
  qed (use a b assms(5) in \<open>auto\<close>)
qed

section \<open>A small logging library\<close>

fun index_of :: "'a \<Rightarrow> 'a list \<Rightarrow> nat option" where
  "index_of a [] = None"
| "index_of a (x # xs) = (if x = a then Some 0 else map_option Suc (index_of a xs))"

record logs =
  lg_names :: "string list"
  lg_level :: "nat \<Rightarrow> int"
  lg_pattern :: "nat \<Rightarrow> string"
  lg_out :: "(nat \<times> int \<times> string) list"

definition logs0 :: logs where
  "logs0 = \<lparr>lg_names = [], lg_level = (\<lambda>_. 2), lg_pattern = (\<lambda>_. ''%+''), lg_out = []\<rparr>"

fun level_value :: "log_level \<Rightarrow> int" where
  "level_value trace = 0" | "level_value debug = 1" | "level_value info = 2" | "level_value warn = 3"
| "level_value err = 4" | "level_value critical = 5" | "level_value off = 6"

definition simlog :: "(logs, nat) spdlog" where
  "simlog = \<lparr>SPDLOG_LEVEL = level_value,
     stdout_color_mt = (\<lambda>n w. if n \<in> set (lg_names w) then (None, w)
        else (Some (length (lg_names w)), w\<lparr>lg_names := lg_names w @ [n]\<rparr>)),
     spd_get = (\<lambda>n w. index_of n (lg_names w)),
     set_pattern = (\<lambda>l p w. w\<lparr>lg_pattern := (lg_pattern w)(l := p)\<rparr>),
     set_level = (\<lambda>l k w. w\<lparr>lg_level := (lg_level w)(l := k)\<rparr>),
     log_at = (\<lambda>l k msg w. if lg_level w l \<le> k then w\<lparr>lg_out := lg_out w @ [(l, k, msg)]\<rparr> else w)\<rparr>"

definition logs_view :: "(logs, nat) log_view" where
  "logs_view = \<lparr>registered = (\<lambda>w n. index_of n (lg_names w)), level_of = lg_level, pattern_of = lg_pattern, printed = lg_out\<rparr>"

lemma index_of_None: "index_of a xs = None \<longleftrightarrow> a \<notin> set xs"
  by (induction xs) auto

lemma index_of_less: "index_of a xs = Some i \<Longrightarrow> i < length xs"
  by (induction xs arbitrary: i) (auto split: if_splits)

lemma index_of_append:
  "b \<notin> set xs \<Longrightarrow> index_of a (xs @ [b]) = (if a = b then Some (length xs) else index_of a xs)"
  by (induction xs) (auto simp: index_of_None)

lemma simlog_contract: "spdlog_contract simlog logs_view"
  unfolding spdlog_contract_def simlog_def logs_view_def levels_ordered_def
  by (auto simp: index_of_None index_of_append fun_eq_iff dest: index_of_less)

section \<open>Properties\<close>

text \<open>C38: \<open>logging::init\<close>, when neither of the two names is taken and the application's name is not that of
  the library, makes two different loggers, one under \<open>yonaa\<close> and one under the application's name, both
  with the given level and the same pattern, leaves every other logger registered, prints nothing, and
  records the application's name for the macros. A second \<open>init\<close>, whatever its arguments, throws: it leaves the
  recorded name and the set of loggers as they are.\<close>

theorem logging_init_once:
  assumes "spdlog_contract L V" and "registered V w ''yonaa'' = None" and "registered V w n = None"
    and "string_of_data v = Inr n" and "n \<noteq> ''yonaa''"
  shows "\<exists>w' li la. logging_init L v lv old w = (Log_done, n, w')
    \<and> registered V w' = (registered V w)(''yonaa'' \<mapsto> li, n \<mapsto> la) \<and> li \<noteq> la
    \<and> configured V (SPDLOG_LEVEL L lv) ''yonaa'' li w' \<and> configured V (SPDLOG_LEVEL L lv) n la w'
    \<and> printed V w' = printed V w
    \<and> (\<forall>v2 lv2. \<exists>w2. logging_init L v2 lv2 n w' = (Log_threw, n, w2) \<and> registered V w2 = registered V w')"
proof -
  obtain w' li la where i: "logging_init L v lv old w = (Log_done, n, w')"
    "registered V w' = (registered V w)(''yonaa'' \<mapsto> li, n \<mapsto> la)" "li \<noteq> la"
    "configured V (SPDLOG_LEVEL L lv) ''yonaa'' li w'" "configured V (SPDLOG_LEVEL L lv) n la w'"
    "printed V w' = printed V w"
    by (rule logging_init_done [OF assms])
  obtain r w2 where mk: "stdout_color_mt L ''yonaa'' w' = (r, w2)" by fastforce
  note c = contract_make [OF assms(1) mk]
  have r: "r = None" using c(4) i(4) by (cases r) (auto simp: configured_def)
  then have "logging_init L v2 lv2 n w' = (Log_threw, n, w2) \<and> registered V w2 = registered V w'" for v2 lv2
    using c(3) mk by (simp add: logging_init_def)
  with i show ?thesis by blast
qed

theorem logging_init_once_witness:
  "\<exists>w. logging_init simlog (sv_literal ''app'') warn [] logs0 = (Log_done, ''app'', w) \<and> lg_names w = [''yonaa'', ''app'']
     \<and> lg_level w 1 = 3 \<and> fst (logging_init simlog (sv_literal ''other'') trace ''app'' w) = Log_threw"
proof -
  obtain w where i: "logging_init simlog (sv_literal ''app'') warn [] logs0 = (Log_done, ''app'', w)"
    and w: "lg_names w = [''yonaa'', ''app'']" "lg_level w 1 = 3"
    by (simp add: logging_init_def simlog_def logs0_def Let_def)
  have "registered logs_view logs0 n = None" for n by (simp add: logs_view_def logs0_def)
  then have "\<exists>w2. logging_init simlog (sv_literal ''other'') trace ''app'' w = (Log_threw, ''app'', w2)"
    using logging_init_once [OF simlog_contract, of logs0 "''app''" "sv_literal ''app''" warn "[]"] i by fastforce
  with i w show ?thesis by auto
qed

text \<open>The example program, on a library without loggers, ends normally. Compiled with logging it prints,
  through the application's logger, its message once at each of the six levels, in order of severity;
  compiled without, it prints nothing. The macros never read through a null pointer.\<close>

lemma logging_example_prints:
  assumes "spdlog_contract L V" and "registered V w = (\<lambda>_. None)"
  shows "\<exists>w' l. logging_example en L w = Inr w' \<and> registered V w' ''logging_example'' = Some l
    \<and> printed V w' = printed V w @ (if en then
         map (\<lambda>lv. (l, SPDLOG_LEVEL L lv, ''Hello, World!'')) [trace, debug, info, warn, err, critical] else [])"
proof -
  let ?n = "''logging_example''" and ?msg = "''Hello, World!''" and ?k = "SPDLOG_LEVEL L"
  let ?lvs = "[trace, debug, info, warn, err, critical]"
  have fresh: "registered V w ''yonaa'' = None" "registered V w ?n = None" using assms(2) by simp_all
  obtain w1 l where i: "logging_init L (sv_literal ?n) trace [] w = (Log_done, ?n, w1)"
    and l: "configured V (?k trace) ?n l w1" and p: "printed V w1 = printed V w"
    by (rule logging_init_done [OF assms(1) fresh, of "sv_literal ?n" trace "[]"]) simp_all
  have "\<forall>lv \<in> set ?lvs. ?k trace \<le> ?k lv"
    using assms(1) by (auto simp: spdlog_contract_def levels_ordered_def)
  from log_seq_prints [OF assms(1) l this, of en ?msg] obtain w' where s: "log_seq en L ?n ?msg ?lvs w1 = Inr w'"
    and w': "configured V (?k trace) ?n l w'" "printed V w' = printed V w1 @ (if en then map (\<lambda>lv. (l, ?k lv, ?msg)) ?lvs else [])"
    by blast
  have "logging_example en L w = log_seq en L ?n ?msg ?lvs w1"
    by (simp add: logging_example_def i YONAA_TRACE_def YONAA_DEBUG_def YONAA_INFO_def YONAA_WARN_def
        YONAA_ERROR_def YONAA_CRITICAL_def [abs_def] log_seq_abs rbind_return)
  with s w' p show ?thesis by (simp add: configured_def)
qed



end
