(* ===== verification/Spec2Isabelle.thy ===== *)
theory Spec2Isabelle
  imports Server_Sync Fault_Freedom Delivery Processes Client_Ledger Logging
begin

text \<open>
  Verification of the networking library \<open>yonaa\<close>.

  \<^bold>\<open>The program.\<close> \<open>yonaa\<close> is a C++ library for TCP on POSIX systems. At the bottom are byte buffers
  (\<open>include/yonaa/buffer.hpp\<close>) and endpoints, which hold a native socket address
  (\<open>src/endpoint.cpp\<close>, \<open>src/detail/sockaddr_ops.cpp\<close>). Name resolution (\<open>src/resolve.cpp\<close>,
  \<open>src/detail/getaddrinfo.cpp\<close>) produces lists of endpoints; \<open>src/detail/socket_ops.cpp\<close> turns such a
  list into a connected or listening socket; \<open>src/detail/poll.cpp\<close> asks the kernel which sockets are
  ready. A connection (\<open>src/connection.cpp\<close>) and an acceptor (\<open>src/acceptor.cpp\<close>) each own one
  socket. The server (\<open>src/server.cpp\<close>) runs a network thread that accepts clients, reads what they
  send, calls the user's handlers and removes clients that are gone; the client (\<open>src/client.cpp\<close>)
  runs a network thread over one connection. \<open>src/logging.cpp\<close> sets up two loggers for the macros of
  \<open>include/yonaa/logging.hpp\<close>.

  \<^bold>\<open>Theories and what they model.\<close>
  \<^item> \<open>Yonaa_Prelude\<close>: faults (reading out of bounds, null dereference, calling an empty
    \<open>std::function\<close>, \<open>std::terminate\<close>, \<open>std::exit\<close>), the result types, error codes, C integer
    conversions, decimal printing, searching a vector of pointers, and the locale \<open>overload_pair\<close>: the
    contract between the overload of an operation that reports through an error code and the one that
    throws. It is interpreted for every such pair of the library.
  \<^item> \<open>Yonaa_Env\<close>: the code that is not part of the repository, as a record of functions over a world
    type: the system calls, \<open>getaddrinfo\<close>, \<open>inet_ntop\<close> and the operators of the \<open>bitmask\<close> package. The
    contracts the library relies on are predicates on that record, taken from the manual pages.
    \<open>traced\<close> adds a log of all calls; \<open>sim\<close> is a small executable kernel that meets the contracts.
  \<^item> \<open>Buffers\<close>, \<open>Endpoints\<close>, \<open>Resolve\<close>, \<open>Poll\<close>, \<open>Socket_Ops\<close>: one theory per component, a definition per
    function. \<open>Poll\<close> has the locale \<open>fd_registry\<close> (what registering and removing descriptors does),
    \<open>Socket_Ops\<close> the locale \<open>first_success\<close> (a loop that stops at the first attempt that succeeds),
    instantiated for both socket-creating loops.
  \<^item> \<open>Connections\<close>, \<open>Acceptors\<close>: the two socket owners, instances of the locale \<open>socket_owner\<close> (at most
    one socket, released at most once).
  \<^item> \<open>Servers\<close>: the server's record and every member function; \<open>Server_Lemmas\<close>: the table lookups
    (locale \<open>client_lookup\<close>), predicates kept by handlers (locale \<open>api_invariant\<close>), \<open>std::remove_if\<close> on
    owning pointers; \<open>Server_Properties\<close>: messages, accepting, removal; \<open>Server_Loop\<close>: predicates kept
    by the network thread (locale \<open>net_invariant\<close>), start, stop and end of the thread; \<open>Server_Events\<close>:
    the accept loop and the events of clients; \<open>Server_System\<close>: the two threads of a server as a step
    relation, with the user's calls interleaved between the steps of the network thread; \<open>Descriptors\<close> and
    \<open>Server_Sync\<close>: client table, poll group and the kernel's descriptors in step (locale \<open>send_monotone\<close>);
    \<open>Fault_Freedom\<close>: which faults a server with its handlers set can reach at all; \<open>Ledger\<close>: descriptors
    and identifiers against the log of system calls (the relation \<open>balanced\<close>); \<open>Processes\<close>: several servers
    in one process, which share the counter of identifiers.
  \<^item> \<open>Clients\<close>, \<open>Client_Properties\<close>: the same for the client (locales \<open>client_invariant\<close> and
    \<open>client_net_invariant\<close>); \<open>Client_System\<close>: its two threads as a step relation; \<open>Client_Ledger\<close>:
    its socket against the log of system calls.
  \<^item> \<open>Runs\<close>: runs of labelled step relations, with the locales \<open>kept_by\<close> (a predicate every step keeps) and
    \<open>phased\<close> (a thread broken into phases against the function that does all its work), both interpreted
    for the server and for the client.
  \<^item> \<open>Addresses\<close>: the well-formedness of endpoints, connections and acceptors that keeps every copy of a
    native address inside its block.
  \<^item> \<open>Delivery\<close>: client, stream and server composed: what \<open>client::send_message\<close> sends is, after finitely many
    rounds of the server's network thread, what its data handler has been given.
  \<^item> \<open>Logging\<close>: \<open>logging::init\<close>, the logging macros and \<open>example/logging_example.cpp\<close>, over a record of the
    functions of \<open>spdlog\<close> and a contract for them; \<open>simlog\<close> is a small library that meets it.
  \<^item> This theory: the property that spans server, acceptor and connections.

  \<^bold>\<open>How state and operations correspond.\<close> A class is a record of its fields; a member function is a
  definition that takes and returns the record and the world. \<open>std::error_code\<close> is its integer value,
  passed in and out where the source passes a reference, so that codes that are not cleared stay set.
  Descriptors are integers; descriptor 0 means ``none'', as in the source. The vector of
  \<open>unique_ptr<client_info>\<close> is a list of optional records, so that a moved-from pointer is \<open>None\<close>. A
  user's handler is an unknown function that answers with a new world and with the calls it makes on
  the server or client; the calls are run at the point of the callback. The counter \<open>next_available_id\<close>, a
  variable of the file \<open>src/server.cpp\<close>, is a field of the server's record; in a process with several servers
  it is a field of the process (\<open>Processes\<close>), loaded into the record of a server before each of its steps and
  stored back after it.

  \<^bold>\<open>What the theorems show.\<close> Sending delivers every byte once and in order or reports an error, and
  always returns; receiving returns exactly what arrived; sockets are released exactly once and by
  their owner, and over the life of a server or client, whatever happens on the way, the sockets closed are
  exactly those it owned and those it was handed; identifiers are unique in a process as long as
  its servers do not interrupt each other inside the accept loop, and are not otherwise; resolving packs all addresses and frees the resolver's list; the attempts to connect
  and to listen are made in order, with the calls in the right order; the poll group implements a list
  of descriptors; the network thread keeps the client table well-formed, accepts every queued
  connection with fresh identifiers, reacts to each event as documented, and leaves the acceptor
  closed. The thread broken into its phases is the thread function, and the well-formedness of the table
  survives any interleaving with calls of the user's thread; the same two facts are shown of the client, of
  which a disconnect is never lost. Endpoints always hold as many bytes as their size says, so resolving,
  connecting and accepting never read outside an address, and a server whose handlers are set can only end
  in the faults that are named. Bytes a client sends reach the server's handler complete and in order.
  Table, poll group and kernel agree on the descriptors at the end of every round, so every event finds its client. \<open>std::remove_if\<close> computes the
  filtered table. No \<open>send\<close> reads outside its buffer. The set-up of logging gives two configured loggers and
  cannot be repeated. Where the code does something else than its documentation says, the theorem states what it
  does: the removal of clients that reads through null pointers, the error code that is never cleared,
  the inverted tests in \<open>client.cpp\<close> and \<open>buffer.hpp\<close>, leaked sockets, the accept loop that can spin,
  threads that cannot be stopped or started again.

  \<^bold>\<open>Loops.\<close> Loops over lists are structural recursions; \<open>std::remove_if\<close> has a measure. The loops of
  \<open>send\<close>, of the accept loop, of the two network threads and of handlers that call back are
  \<open>partial_function\<close>s whose value is \<open>None\<close> when they do not return; no fuel is used. That \<open>send\<close> and
  the accept loop return is proved from the contracts of the kernel; that the other loops do not return
  under stated conditions is proved as well.

  \<^bold>\<open>Not modelled.\<close> The messages the library itself logs from the other components, which are empty in the
  default build and change nothing but what is printed; interleavings of the two threads inside one
  member function (the code does not protect the fields they share, \<open>running_\<close> included, which is a plain
  \<open>bool\<close>: the steps of \<open>Server_System\<close>, \<open>Client_System\<close> and
  \<open>Processes\<close> are whole calls; only the race on the counter of identifiers is shown inside a call); failing memory allocation; the time the threads
  sleep; the test programs. The destructors of server and client run the thread at the point where they
  join it, which is one of its possible schedules. \<open>data()\<close> and \<open>as<T>()\<close> of a buffer hand out its storage,
  which is the field of the record.
\<close>

section \<open>Releasing a server\<close>

text \<open>C31: destroying a server whose network thread is not running closes every socket it owns, each
  exactly once: the listening socket, if it is open, and then the sockets of the clients that are still
  connected, in table order. No other descriptor is closed.\<close>

theorem server_destroy_closes:
  assumes "srv_thread s \<noteq> Thread_running"
  shows "\<exists>w' u. server_destroy (traced E) s (w, t) = Some (Inr (w', t @ u))
    \<and> closed u = filter (\<lambda>fd. fd \<noteq> 0)
        (acc_socket (srv_acceptor s) # map (\<lambda>c. conn_socket (ci_conn c)) (infos (srv_clients s)))"
proof -
  have "\<not> (joinable (srv_thread s) \<and> srv_thread s \<noteq> Thread_finished)"
    using assms by (cases "srv_thread s") (simp_all add: joinable_def)
  with members_destroyed [of E s w t] show ?thesis by (auto simp: server_destroy_def socks_def)
qed

theorem server_destroy_closes_witness:
  "\<exists>w u. server_destroy (traced sim) (ex_server (traced sim) [ex_client 1 7 True, ex_client 2 8 True]) (k0, []) =
     Some (Inr (w, u)) \<and> closed u = [3, 7, 8]"
proof -
  let ?s = "ex_server (traced sim) [ex_client 1 7 True, ex_client 2 8 True]"
  have "srv_thread ?s \<noteq> Thread_running" by (simp add: ex_server_def server_new_def)
  from server_destroy_closes [OF this, of sim k0 "[]"] show ?thesis by (simp add: ex_server_def ex_client_def)
qed

end
